theory Spec2Isabelle
  imports Main "HOL-Library.Sublist"
begin

text \<open>
  A model of \<^verbatim>\<open>src/lib.ts\<close> of package-lock-merge-driver: the version check, the search
  for the lockfile, the reading of the Git configuration, the location and the editing of
  the attributes file, \<^verbatim>\<open>install\<close>, \<^verbatim>\<open>uninstall\<close> and \<^verbatim>\<open>merge\<close>. Each function of the
  source is a function of the same name here; the regular expressions are written out as
  the matchers they are, and the calls to Git, npm and the file system are answered by
  an environment and recorded as events.
\<close>

section \<open>JavaScript strings\<close>

text \<open>
  A JavaScript string is a sequence of UTF-16 code units; the model keeps them as natural
  numbers, so that the character classes of the regular expressions in \<^verbatim>\<open>src/lib.ts\<close>
  (\<^verbatim>\<open>\s\<close>, \<^verbatim>\<open>.\<close>, \<^verbatim>\<open>trim()\<close>) are the ECMAScript ones, also outside ASCII.
  \<open>str\<close> turns an Isabelle literal into such a string.
\<close>

type_synonym jsstr = "nat list"

definition str :: "string \<Rightarrow> jsstr" where
  "str s = map of_char s"

definition LF :: nat where "LF = 10"
definition CR :: nat where "CR = 13"

text \<open>\<^verbatim>\<open>\s\<close> and the characters \<^verbatim>\<open>trim()\<close> strips: WhiteSpace and LineTerminator of ECMAScript.\<close>

definition is_ws :: "nat \<Rightarrow> bool" where
  "is_ws c = (c = 9 \<or> c = 10 \<or> c = 11 \<or> c = 12 \<or> c = 13 \<or> c = 32 \<or> c = 160 \<or> c = 5760
     \<or> (8192 \<le> c \<and> c \<le> 8202) \<or> c = 8232 \<or> c = 8233 \<or> c = 8239 \<or> c = 8287
     \<or> c = 12288 \<or> c = 65279)"

text \<open>The line terminators, which \<^verbatim>\<open>.\<close> does not match.\<close>

definition is_lt :: "nat \<Rightarrow> bool" where
  "is_lt c = (c = 10 \<or> c = 13 \<or> c = 8232 \<or> c = 8233)"

definition is_digit :: "nat \<Rightarrow> bool" where
  "is_digit c = (48 \<le> c \<and> c \<le> 57)"

definition js_trim :: "jsstr \<Rightarrow> jsstr" where
  "js_trim s = rev (dropWhile is_ws (rev (dropWhile is_ws s)))"

text \<open>\<^verbatim>\<open>s.split(sep)\<close> for a one-character separator: never an empty array.\<close>

fun push_front :: "nat \<Rightarrow> jsstr list \<Rightarrow> jsstr list" where
  "push_front c [] = [[c]]"
| "push_front c (l # ls) = (c # l) # ls"

fun js_split :: "nat \<Rightarrow> jsstr \<Rightarrow> jsstr list" where
  "js_split sep [] = [[]]"
| "js_split sep (c # cs) = (if c = sep then [] # js_split sep cs else push_front c (js_split sep cs))"

text \<open>\<^verbatim>\<open>s.split(/\r?\n/)\<close>: a line feed, with the carriage return just before it when there is one.\<close>

fun split_crlf :: "jsstr \<Rightarrow> jsstr list" where
  "split_crlf [] = [[]]"
| "split_crlf [c] = (if c = LF then [[], []] else [[c]])"
| "split_crlf (c # d # cs) =
     (if c = LF then [] # split_crlf (d # cs)
      else if c = CR \<and> d = LF then [] # split_crlf cs
      else push_front c (split_crlf (d # cs)))"

text \<open>\<^verbatim>\<open>lines.join('\n')\<close>.\<close>

fun js_join :: "jsstr list \<Rightarrow> jsstr" where
  "js_join [] = []"
| "js_join [l] = l"
| "js_join (l # m # ls) = l @ [LF] @ js_join (m # ls)"

text \<open>
  \<^verbatim>\<open>parseInt(s, 10)\<close>: leading white space is skipped, one sign is read, then the longest
  run of decimal digits; no digit gives NaN (\<open>None\<close>). The value is kept as an unbounded
  integer: the comparison with 7 is the same on the rounded Number.
\<close>

definition digits_value :: "jsstr \<Rightarrow> int" where
  "digits_value z = foldl (\<lambda>a c. 10 * a + int (c - 48)) 0 z"

definition parseInt :: "jsstr \<Rightarrow> int option" where
  "parseInt s =
     (let t = dropWhile is_ws s;
          neg = (case t of [] \<Rightarrow> False | c # _ \<Rightarrow> c = 45);
          u = (case t of [] \<Rightarrow> [] | c # r \<Rightarrow> if c = 43 \<or> c = 45 then r else t);
          z = takeWhile is_digit u
      in if z = [] then None else Some ((if neg then - 1 else 1) * digits_value z))"

text \<open>Helpers for the hand-compiled regular expressions below.\<close>

definition strip_prefix :: "jsstr \<Rightarrow> jsstr \<Rightarrow> jsstr option" where
  "strip_prefix p s = (if take (length p) s = p then Some (drop (length p) s) else None)"

text \<open>
  Matching under the \<^verbatim>\<open>i\<close> flag against an ASCII pattern: a character matches a pattern
  letter exactly when it is that letter in either case (no character outside ASCII
  canonicalises to an ASCII one).
\<close>

definition upper :: "nat \<Rightarrow> nat" where
  "upper c = (if 97 \<le> c \<and> c \<le> 122 then c - 32 else c)"

fun ci_strip :: "jsstr \<Rightarrow> jsstr \<Rightarrow> jsstr option" where
  "ci_strip [] s = Some s"
| "ci_strip (p # ps) [] = None"
| "ci_strip (p # ps) (c # cs) = (if upper p = upper c then ci_strip ps cs else None)"

text \<open>
  An unanchored search tries every start position from the left and returns the first
  match (here: what the matcher captured).
\<close>

fun regex_search :: "(jsstr \<Rightarrow> 'a option) \<Rightarrow> jsstr \<Rightarrow> 'a option" where
  "regex_search f [] = f []"
| "regex_search f (c # cs) = (case f (c # cs) of Some g \<Rightarrow> Some g | None \<Rightarrow> regex_search f cs)"

definition DQ :: nat where "DQ = 34"
definition SQ :: nat where "SQ = 39"

definition quoted :: "jsstr \<Rightarrow> jsstr" where
  "quoted s = [DQ] @ s @ [DQ]"

section \<open>The outside world\<close>

text \<open>
  Every call the program makes to a child process or to the file system is answered by
  the environment, which may look at everything that happened before: the history of
  events is the state of the world. A computation takes the history and returns its
  result, or the error it throws, with the events it added, in the order of the calls.
\<close>

datatype exec_result = ExecOk jsstr | ExecFail jsstr

datatype 'a fs_result = FsOk 'a | FsErr jsstr

datatype event =
    EvExec jsstr "jsstr option" exec_result
  | EvReadFile jsstr "jsstr fs_result"
  | EvWriteFile jsstr jsstr "unit fs_result"
  | EvUnlink jsstr "unit fs_result"
  | EvMkdir jsstr "unit fs_result"
  | EvAccess "jsstr list" bool
  | EvSpawn "jsstr list" "jsstr option"
  | EvTrash jsstr bool

text \<open>
  \<open>exec\<close> is \<^verbatim>\<open>promisify(childProcess.exec)\<close> (the command line, the working directory
  when one is given; standard output, or the message of the error it rejects with);
  the file operations give the \<^verbatim>\<open>code\<close> of the error they reject with; \<open>trash\<close> says
  whether the move succeeded; \<open>spawnSync\<close> gives the standard output of
  \<^verbatim>\<open>git merge-file\<close>, or null. The functions of \<^verbatim>\<open>node:path\<close> and \<^verbatim>\<open>node:os\<close> are taken
  from the environment as they are.
\<close>

record env =
  exec :: "event list \<Rightarrow> jsstr \<Rightarrow> jsstr option \<Rightarrow> exec_result"
  readFile :: "event list \<Rightarrow> jsstr \<Rightarrow> jsstr fs_result"
  writeFile :: "event list \<Rightarrow> jsstr \<Rightarrow> jsstr \<Rightarrow> unit fs_result"
  unlink :: "event list \<Rightarrow> jsstr \<Rightarrow> unit fs_result"
  mkdir :: "event list \<Rightarrow> jsstr \<Rightarrow> unit fs_result"
  access :: "event list \<Rightarrow> jsstr list \<Rightarrow> bool"
  spawnSync :: "event list \<Rightarrow> jsstr list \<Rightarrow> jsstr option"
  trash :: "event list \<Rightarrow> jsstr \<Rightarrow> bool"
  homedir :: jsstr
  XDG_CONFIG_HOME :: "jsstr option"
  pathJoin :: "jsstr list \<Rightarrow> jsstr"
  pathDirname :: "jsstr \<Rightarrow> jsstr"
  pathResolve :: "jsstr \<Rightarrow> jsstr"

datatype error =
    NoLockfileFound
  | ExecError jsstr
  | FsError jsstr
  | GitConfigError jsstr
  | SetAttributesFailed jsstr bool
  | InvalidArgType
  | TrashError jsstr

type_synonym 'a prog = "event list \<Rightarrow> (error + 'a) \<times> event list"

definition ret :: "'a \<Rightarrow> 'a prog" where
  "ret a = (\<lambda>h. (Inr a, []))"

definition throw :: "error \<Rightarrow> 'a prog" where
  "throw err = (\<lambda>h. (Inl err, []))"

definition andThen :: "'a prog \<Rightarrow> ('a \<Rightarrow> 'b prog) \<Rightarrow> 'b prog" where
  "andThen m f = (\<lambda>h. case m h of
       (Inl err, ev) \<Rightarrow> (Inl err, ev)
     | (Inr a, ev) \<Rightarrow> (case f a (h @ ev) of (r, ev') \<Rightarrow> (r, ev @ ev')))"

text \<open>The outcome of a computation as a value: what a \<^verbatim>\<open>catch\<close> or a \<^verbatim>\<open>Promise.all\<close> sees.\<close>

definition attempt :: "'a prog \<Rightarrow> (error + 'a) prog" where
  "attempt m = (\<lambda>h. case m h of (r, ev) \<Rightarrow> (Inr r, ev))"

definition exec_p :: "env \<Rightarrow> jsstr \<Rightarrow> jsstr option \<Rightarrow> exec_result prog" where
  "exec_p e cmd cwd = (\<lambda>h. let r = exec e h cmd cwd in (Inr r, [EvExec cmd cwd r]))"

definition readFile_p :: "env \<Rightarrow> jsstr \<Rightarrow> (jsstr fs_result) prog" where
  "readFile_p e p = (\<lambda>h. let r = readFile e h p in (Inr r, [EvReadFile p r]))"

definition writeFile_p :: "env \<Rightarrow> jsstr \<Rightarrow> jsstr \<Rightarrow> (unit fs_result) prog" where
  "writeFile_p e p c = (\<lambda>h. let r = writeFile e h p c in (Inr r, [EvWriteFile p c r]))"

definition unlink_p :: "env \<Rightarrow> jsstr \<Rightarrow> (unit fs_result) prog" where
  "unlink_p e p = (\<lambda>h. let r = unlink e h p in (Inr r, [EvUnlink p r]))"

definition mkdir_p :: "env \<Rightarrow> jsstr \<Rightarrow> (unit fs_result) prog" where
  "mkdir_p e p = (\<lambda>h. let r = mkdir e h p in (Inr r, [EvMkdir p r]))"

definition trash_p :: "env \<Rightarrow> jsstr \<Rightarrow> bool prog" where
  "trash_p e p = (\<lambda>h. let r = trash e h p in (Inr r, [EvTrash p r]))"

definition spawnSync_p :: "env \<Rightarrow> jsstr list \<Rightarrow> (jsstr option) prog" where
  "spawnSync_p e args = (\<lambda>h. let r = spawnSync e h args in (Inr r, [EvSpawn args r]))"

text \<open>\<^verbatim>\<open>await exec(cmd)\<close> where a rejection is not caught.\<close>

definition exec_or_throw :: "env \<Rightarrow> jsstr \<Rightarrow> jsstr option \<Rightarrow> jsstr prog" where
  "exec_or_throw e cmd cwd =
     andThen (exec_p e cmd cwd) (\<lambda>r. case r of ExecOk out \<Rightarrow> ret out | ExecFail msg \<Rightarrow> throw (ExecError msg))"

definition ENOENT :: jsstr where
  "ENOENT = str ''ENOENT''"

section \<open>isNpmV7OrGreater\<close>

definition version_ok :: "jsstr \<Rightarrow> bool" where
  "version_ok stdout =
     (let version = js_trim stdout;
          versionParts = map parseInt (js_split 46 version);
          majorVersion = hd versionParts
      in case majorVersion of None \<Rightarrow> False | Some n \<Rightarrow> 7 \<le> n)"

definition isNpmV7OrGreater :: "env \<Rightarrow> bool prog" where
  "isNpmV7OrGreater e =
     andThen (exec_p e (str ''npm --version'') None)
       (\<lambda>r. case r of ExecOk stdout \<Rightarrow> ret (version_ok stdout) | ExecFail msg \<Rightarrow> ret False)"

section \<open>findLockfile\<close>

text \<open>
  \<^verbatim>\<open>path.resolve(startPath)\<close> is an absolute, normalised path: the list of its components
  below the root, the root being the empty list. \<^verbatim>\<open>path.resolve(dir, '..')\<close> drops the last
  component and leaves the root as it is.
\<close>

definition LOCKFILE :: jsstr where
  "LOCKFILE = str ''package-lock.json''"

function findLockfile :: "env \<Rightarrow> jsstr list \<Rightarrow> event list \<Rightarrow> (error + jsstr list) \<times> event list" where
  "findLockfile e currentDir h =
     (if access e h (currentDir @ [LOCKFILE])
      then (Inr (currentDir @ [LOCKFILE]), [EvAccess (currentDir @ [LOCKFILE]) True])
      else if butlast currentDir = currentDir
      then (Inl NoLockfileFound, [EvAccess (currentDir @ [LOCKFILE]) False])
      else (case findLockfile e (butlast currentDir) (h @ [EvAccess (currentDir @ [LOCKFILE]) False]) of
              (r, ev) \<Rightarrow> (r, EvAccess (currentDir @ [LOCKFILE]) False # ev)))"
  by pat_completeness auto
termination
proof (relation "measure (\<lambda>(e, d, h). length d)")
  show "wf (measure (\<lambda>(e, d, h). length d))" by simp
next
  fix e :: env and h :: "event list" and currentDir :: "jsstr list"
  assume "butlast currentDir \<noteq> currentDir"
  then have "currentDir \<noteq> []" by auto
  then show "((e, butlast currentDir, h @ [EvAccess (currentDir @ [LOCKFILE]) False]), (e, currentDir, h))
      \<in> measure (\<lambda>(e, d, h). length d)"
    by simp
qed

declare findLockfile.simps [simp del]

section \<open>getGitConfigWithOrigins\<close>

record cfg_entry =
  cfg_filepath :: jsstr
  cfg_value :: jsstr

type_synonym GitConfigWithSource = "jsstr \<rightharpoonup> cfg_entry"

text \<open>
  A line of \<^verbatim>\<open>git config --show-origin --list\<close> is matched against
  \<^verbatim>\<open>/^file:(.+?)\s+(.+?)=(.+)$/\<close>. The three functions follow the backtracking order of the
  expression: the shortest origin first, then the longest run of white space, then the
  shortest key that is followed by \<^verbatim>\<open>=\<close> and a non-empty rest without line terminators.
\<close>

fun key_value_at :: "jsstr \<Rightarrow> jsstr \<Rightarrow> (jsstr \<times> jsstr) option" where
  "key_value_at k [] = None"
| "key_value_at k (c # r) =
     (if k \<noteq> [] \<and> c = 61 \<and> r \<noteq> [] \<and> list_all (\<lambda>x. \<not> is_lt x) r then Some (k, r)
      else if is_lt c then None
      else key_value_at (k @ [c]) r)"

fun spaces_then_key_value :: "nat \<Rightarrow> jsstr \<Rightarrow> (jsstr \<times> jsstr) option" where
  "spaces_then_key_value 0 s = None"
| "spaces_then_key_value (Suc b) s =
     (case key_value_at [] (drop (Suc b) s) of
        Some kv \<Rightarrow> Some kv
      | None \<Rightarrow> spaces_then_key_value b s)"

fun origin_at :: "jsstr \<Rightarrow> jsstr \<Rightarrow> (jsstr \<times> jsstr \<times> jsstr) option" where
  "origin_at f [] = None"
| "origin_at f (c # r) =
     (case (if f \<noteq> [] then spaces_then_key_value (length (takeWhile is_ws (c # r))) (c # r) else None) of
        Some (k, v) \<Rightarrow> Some (f, k, v)
      | None \<Rightarrow> if is_lt c then None else origin_at (f @ [c]) r)"

definition parse_config_line :: "jsstr \<Rightarrow> (jsstr \<times> jsstr \<times> jsstr) option" where
  "parse_config_line line =
     (case strip_prefix (str ''file:'') line of None \<Rightarrow> None | Some r \<Rightarrow> origin_at [] r)"

definition parse_config :: "jsstr \<Rightarrow> GitConfigWithSource" where
  "parse_config stdout =
     foldl (\<lambda>acc line. case parse_config_line line of
                Some (f, k, v) \<Rightarrow> acc(k \<mapsto> \<lparr>cfg_filepath = f, cfg_value = v\<rparr>)
              | None \<Rightarrow> acc)
       Map.empty (split_crlf stdout)"

definition scope_flag :: "bool \<Rightarrow> jsstr" where
  "scope_flag local = (if local then str ''--local'' else str ''--global'')"

definition list_cmd :: "bool \<Rightarrow> jsstr" where
  "list_cmd local = str ''git config --show-origin --list --includes'' @ str '' '' @ scope_flag local"

definition getGitConfigWithOrigins :: "env \<Rightarrow> bool \<Rightarrow> GitConfigWithSource prog" where
  "getGitConfigWithOrigins e local =
     andThen (exec_p e (list_cmd local) None)
       (\<lambda>r. case r of
               ExecOk stdout \<Rightarrow> ret (parse_config stdout)
             | ExecFail msg \<Rightarrow> throw (GitConfigError msg))"

section \<open>Locating the attributes file\<close>

definition getAttributesFilepathFromConfig :: "GitConfigWithSource \<Rightarrow> (jsstr \<times> jsstr) option" where
  "getAttributesFilepathFromConfig gitConfig =
     (case gitConfig (str ''core.attributesfile'') of
        None \<Rightarrow> None
      | Some coreAttributes \<Rightarrow>
          if cfg_value coreAttributes \<noteq> [] then Some (cfg_value coreAttributes, cfg_filepath coreAttributes)
          else None)"

definition set_attributesfile_cmd :: "bool \<Rightarrow> jsstr \<Rightarrow> jsstr" where
  "set_attributesfile_cmd local filepath =
     str ''git config set '' @ scope_flag local @ str '' core.attributesfile '' @ quoted filepath"

definition set_created_cmd :: "bool \<Rightarrow> jsstr \<Rightarrow> jsstr \<Rightarrow> jsstr" where
  "set_created_cmd local driverName source =
     str ''git config set '' @ scope_flag local @ str '' merge.'' @ quoted driverName
       @ str ''.created '' @ quoted source"

definition setAttributesFilepath :: "env \<Rightarrow> jsstr \<Rightarrow> jsstr \<Rightarrow> bool \<Rightarrow> (jsstr \<times> jsstr) prog" where
  "setAttributesFilepath e filepath driverName local =
     andThen (exec_or_throw e (set_attributesfile_cmd local filepath) None) (\<lambda>_.
     andThen (getGitConfigWithOrigins e local) (\<lambda>gitConfig.
       case getAttributesFilepathFromConfig gitConfig of
         None \<Rightarrow> throw (SetAttributesFailed filepath local)
       | Some (gitAttributesFilepath, source) \<Rightarrow>
           if gitAttributesFilepath \<noteq> filepath \<or> source = [] then throw (SetAttributesFailed filepath local)
           else andThen (exec_or_throw e (set_created_cmd local driverName source) None) (\<lambda>_.
                ret (gitAttributesFilepath, source))))"

text \<open>
  The second argument of \<^verbatim>\<open>findGitAttributes\<close> is a configuration already read, or the
  \<^verbatim>\<open>local\<close> flag. With a configuration, \<^verbatim>\<open>local\<close> stays false.
\<close>

datatype config_or_local = GivenConfig GitConfigWithSource | GivenLocal bool

text \<open>\<^verbatim>\<open>p.replace(/^\s*~\//, home + '/')\<close>, for a home directory without \<^verbatim>\<open>$\<close>.\<close>

definition expand_tilde :: "jsstr \<Rightarrow> jsstr \<Rightarrow> jsstr" where
  "expand_tilde home p =
     (case strip_prefix (str ''~/'') (dropWhile is_ws p) of
        Some rest \<Rightarrow> home @ str ''/'' @ rest
      | None \<Rightarrow> p)"

definition fallback_local :: "env \<Rightarrow> jsstr \<Rightarrow> (jsstr \<times> jsstr) prog" where
  "fallback_local e driverName =
     andThen (exec_or_throw e (str ''git rev-parse --git-dir'') None) (\<lambda>out.
       let gitDir = js_trim out;
           gitAttributesFilepath = pathJoin e [gitDir, str ''info'', str ''attributes'']
       in andThen (setAttributesFilepath e gitAttributesFilepath driverName True) (\<lambda>(_, source).
          ret (gitAttributesFilepath, source)))"

definition fallback_global :: "env \<Rightarrow> jsstr \<Rightarrow> (jsstr \<times> jsstr) prog" where
  "fallback_global e driverName =
     (let gitAttributesFilepath =
            (case XDG_CONFIG_HOME e of
               Some x \<Rightarrow> if x \<noteq> [] then pathJoin e [x, str ''git'', str ''attributes'']
                         else pathJoin e [homedir e, str ''.config'', str ''git'', str ''attributes'']
             | None \<Rightarrow> pathJoin e [homedir e, str ''.config'', str ''git'', str ''attributes''])
      in andThen (setAttributesFilepath e gitAttributesFilepath driverName False) (\<lambda>(_, source).
         ret (gitAttributesFilepath, source)))"

definition findGitAttributes :: "env \<Rightarrow> jsstr \<Rightarrow> config_or_local \<Rightarrow> (jsstr \<times> jsstr) prog" where
  "findGitAttributes e driverName gitConfigOrLocal =
     (let local = (case gitConfigOrLocal of GivenConfig _ \<Rightarrow> False | GivenLocal b \<Rightarrow> b);
          given = (case gitConfigOrLocal of
                     GivenConfig gitConfig \<Rightarrow> getAttributesFilepathFromConfig gitConfig
                   | GivenLocal _ \<Rightarrow> None)
      in andThen
           (case given of
              Some found \<Rightarrow> ret found
            | None \<Rightarrow>
                andThen (getGitConfigWithOrigins e local) (\<lambda>scopedConfig.
                  case getAttributesFilepathFromConfig scopedConfig of
                    Some found \<Rightarrow> ret found
                  | None \<Rightarrow> if local then fallback_local e driverName else fallback_global e driverName))
           (\<lambda>(gitAttributesFilepath, source).
              ret (expand_tilde (homedir e) gitAttributesFilepath, source)))"

section \<open>updateGitAttributes\<close>

text \<open>
  \<^verbatim>\<open>new RegExp(`package-lock\\.json\\smerge\\s*=\\s*${driverName}$`)\<close>, for a driver name
  that the expression reads letter by letter (letters, digits, hyphen, underscore: what
  the command line's \<^verbatim>\<open>slug\<close> leaves).
\<close>

definition plain_name :: "jsstr \<Rightarrow> bool" where
  "plain_name n = list_all (\<lambda>c. (48 \<le> c \<and> c \<le> 57) \<or> (65 \<le> c \<and> c \<le> 90) \<or> (97 \<le> c \<and> c \<le> 122)
                              \<or> c = 45 \<or> c = 95) n"

definition association_at :: "jsstr \<Rightarrow> jsstr \<Rightarrow> unit option" where
  "association_at driverName s =
     (case strip_prefix LOCKFILE s of
        None \<Rightarrow> None
      | Some [] \<Rightarrow> None
      | Some (c # r) \<Rightarrow>
          if is_ws c then
            (case strip_prefix (str ''merge'') r of
               None \<Rightarrow> None
             | Some r1 \<Rightarrow>
                 (case dropWhile is_ws r1 of
                    [] \<Rightarrow> None
                  | d # r2 \<Rightarrow> if d = 61 \<and> dropWhile is_ws r2 = driverName then Some () else None))
          else None)"

definition line_matches :: "jsstr \<Rightarrow> jsstr \<Rightarrow> bool" where
  "line_matches driverName line = (regex_search (association_at driverName) line \<noteq> None)"

definition association_line :: "jsstr \<Rightarrow> jsstr" where
  "association_line driverName = str ''package-lock.json merge='' @ driverName @ [LF]"

text \<open>What the \<^verbatim>\<open>try\<close> block computes from the file it read.\<close>

definition strip_association :: "jsstr \<Rightarrow> jsstr \<Rightarrow> jsstr" where
  "strip_association driverName content =
     js_join (filter (\<lambda>line. \<not> line_matches driverName line) (split_crlf content))"

text \<open>The rest of the function: from \<^verbatim>\<open>attrContents\<close> to the text it writes.\<close>

definition finish_contents :: "jsstr \<Rightarrow> jsstr \<Rightarrow> jsstr" where
  "finish_contents driverName attrContents =
     (if attrContents \<noteq> [] \<and> \<not> (last attrContents = LF \<or> last attrContents = CR) then [LF]
      else attrContents) @ association_line driverName"

text \<open>The text written, from what the file held (\<open>None\<close>: there was no file).\<close>

definition written_contents :: "jsstr \<Rightarrow> jsstr option \<Rightarrow> jsstr" where
  "written_contents driverName prior =
     finish_contents driverName (case prior of None \<Rightarrow> [] | Some content \<Rightarrow> strip_association driverName content)"

definition updateGitAttributes :: "env \<Rightarrow> jsstr \<Rightarrow> jsstr \<Rightarrow> unit prog" where
  "updateGitAttributes e filepath driverName =
     andThen (readFile_p e filepath) (\<lambda>r.
     andThen (case r of
                FsOk content \<Rightarrow> ret (Some content)
              | FsErr code \<Rightarrow> if code \<noteq> ENOENT then throw (FsError code) else ret None) (\<lambda>prior.
     andThen (writeFile_p e filepath (written_contents driverName prior)) (\<lambda>w.
       case w of FsOk _ \<Rightarrow> ret () | FsErr code \<Rightarrow> throw (FsError code))))"

section \<open>install\<close>

text \<open>
  The three chains of the \<^verbatim>\<open>Promise.all\<close> are run one after the other, in the order of
  the array; each runs whatever the others do, and the first error in that order is the
  one \<^verbatim>\<open>install\<close> throws.
\<close>

definition set_name_cmd :: "jsstr \<Rightarrow> jsstr \<Rightarrow> jsstr" where
  "set_name_cmd opts driverName =
     str ''git config set '' @ opts @ str '' merge.'' @ quoted driverName @ str ''.name ''
       @ quoted (str ''automatically merge npm lockfiles'')"

definition set_driver_cmd :: "jsstr \<Rightarrow> jsstr \<Rightarrow> jsstr \<Rightarrow> jsstr" where
  "set_driver_cmd opts driverName driverCommand =
     str ''git config set '' @ opts @ str '' merge.'' @ quoted driverName @ str ''.driver ''
       @ quoted driverCommand"

definition first_error :: "(error + unit) list \<Rightarrow> error option" where
  "first_error rs = (case filter isl rs of [] \<Rightarrow> None | r # _ \<Rightarrow> Some (projl r))"

definition install :: "env \<Rightarrow> jsstr \<Rightarrow> jsstr option \<Rightarrow> bool \<Rightarrow> (jsstr \<times> jsstr) prog" where
  "install e driverName command local =
     (let driverCommand = (case command of
                             None \<Rightarrow> str ''npx package-lock-merge-driver merge %A %O %B %P''
                           | Some c \<Rightarrow> if c \<noteq> [] then c
                                       else str ''npx package-lock-merge-driver merge %A %O %B %P'')
      in andThen (findGitAttributes e driverName (GivenLocal local)) (\<lambda>(gitAttributesFilepath, gitConfigFilepath).
         let opts = scope_flag local;
             gitAttributesDir = pathDirname e gitAttributesFilepath
         in andThen (attempt (andThen (exec_or_throw e (set_name_cmd opts driverName) None) (\<lambda>_.
                              andThen (exec_or_throw e (set_driver_cmd opts driverName driverCommand) None) (\<lambda>_.
                              ret ())))) (\<lambda>a.
            andThen (attempt (andThen (mkdir_p e gitAttributesDir) (\<lambda>m.
                              case m of FsOk _ \<Rightarrow> ret () | FsErr code \<Rightarrow> throw (FsError code)))) (\<lambda>b.
            andThen (attempt (updateGitAttributes e gitAttributesFilepath driverName)) (\<lambda>c.
              case first_error [a, b, c] of
                Some err \<Rightarrow> throw err
              | None \<Rightarrow> ret (gitAttributesFilepath, gitConfigFilepath))))))"

section \<open>getWorkspaces\<close>

text \<open>
  \<^verbatim>\<open>/"workspaces"\s*:\s*\[\s*([^\]]*)\s*\]/\<close> at one start position: what the group
  captures. The greedy group runs to the first closing bracket, so nothing is left for
  the white space after it.
\<close>

definition workspaces_at :: "jsstr \<Rightarrow> jsstr option" where
  "workspaces_at s =
     (case strip_prefix (quoted (str ''workspaces'')) s of
        None \<Rightarrow> None
      | Some r \<Rightarrow>
          (case dropWhile is_ws r of
             [] \<Rightarrow> None
           | c # r1 \<Rightarrow>
               if c = 58 then
                 (case dropWhile is_ws r1 of
                    [] \<Rightarrow> None
                  | d # r2 \<Rightarrow>
                      if d = 91 then
                        (let r3 = dropWhile is_ws r2 in
                         if dropWhile (\<lambda>x. x \<noteq> 93) r3 \<noteq> [] then Some (takeWhile (\<lambda>x. x \<noteq> 93) r3)
                         else None)
                      else None)
               else None))"

definition is_quote :: "nat \<Rightarrow> bool" where
  "is_quote c = (c = DQ \<or> c = SQ)"

text \<open>
  \<^verbatim>\<open>arrayContent.match(/["']([^"']+)["']/g)\<close>: the matches from left to right, each search
  starting where the match before it ended.
\<close>

function quoted_matches :: "jsstr \<Rightarrow> jsstr list" where
  "quoted_matches [] = []"
| "quoted_matches (c # cs) =
     (if is_quote c \<and> takeWhile (\<lambda>x. \<not> is_quote x) cs \<noteq> [] \<and> dropWhile (\<lambda>x. \<not> is_quote x) cs \<noteq> []
      then (c # takeWhile (\<lambda>x. \<not> is_quote x) cs @ [hd (dropWhile (\<lambda>x. \<not> is_quote x) cs)])
             # quoted_matches (tl (dropWhile (\<lambda>x. \<not> is_quote x) cs))
      else quoted_matches cs)"
  by pat_completeness auto
termination
proof (relation "measure length")
  show "wf (measure length)" by simp
next
  fix c :: nat and cs :: jsstr
  have "length (dropWhile (\<lambda>x. \<not> is_quote x) cs) \<le> length cs"
    by (rule length_dropWhile_le)
  then have "length (tl (dropWhile (\<lambda>x. \<not> is_quote x) cs)) \<le> length cs"
    by simp
  then show "(tl (dropWhile (\<lambda>x. \<not> is_quote x) cs), c # cs) \<in> measure length"
    by simp
next
  fix c :: nat and cs :: jsstr
  show "(cs, c # cs) \<in> measure length" by simp
qed

text \<open>\<^verbatim>\<open>match.replace(/^["']|["']$/g, '')\<close>.\<close>

definition strip_quotes :: "jsstr \<Rightarrow> jsstr" where
  "strip_quotes m =
     (let a = (case m of [] \<Rightarrow> [] | c # r \<Rightarrow> if is_quote c then r else m)
      in if a \<noteq> [] \<and> is_quote (last a) then butlast a else a)"

definition extract_workspaces :: "jsstr \<Rightarrow> jsstr list" where
  "extract_workspaces content =
     (case regex_search workspaces_at content of
        None \<Rightarrow> []
      | Some arrayContent \<Rightarrow>
          if arrayContent \<noteq> [] then map strip_quotes (quoted_matches arrayContent) else [])"

definition getWorkspaces :: "env \<Rightarrow> jsstr \<Rightarrow> (jsstr list) prog" where
  "getWorkspaces e filepath =
     andThen (readFile_p e filepath) (\<lambda>r.
       case r of FsOk content \<Rightarrow> ret (extract_workspaces content) | FsErr code \<Rightarrow> ret [])"

section \<open>merge\<close>

text \<open>
  All the moves to the trash are started before any is awaited, the root's first. Only the
  root's move has a \<^verbatim>\<open>catch\<close>.
\<close>

fun trash_all :: "env \<Rightarrow> jsstr list \<Rightarrow> ((jsstr \<times> bool) list) prog" where
  "trash_all e [] = ret []"
| "trash_all e (dir # dirs) =
     andThen (trash_p e dir) (\<lambda>ok. andThen (trash_all e dirs) (\<lambda>rest. ret ((dir, ok) # rest)))"

definition merge :: "env \<Rightarrow> jsstr \<Rightarrow> jsstr \<Rightarrow> jsstr \<Rightarrow> jsstr \<Rightarrow> bool prog" where
  "merge e ours base theirs filepath =
     (let workspaceRoot = pathResolve e (pathDirname e filepath) in
      andThen (spawnSync_p e [str ''merge-file'', str ''-p'', ours, base, theirs]) (\<lambda>stdout.
      andThen (attempt (case stdout of
                          None \<Rightarrow> throw InvalidArgType
                        | Some merged \<Rightarrow>
                            andThen (writeFile_p e filepath merged) (\<lambda>w.
                              case w of FsOk _ \<Rightarrow> ret () | FsErr code \<Rightarrow> throw (FsError code)))) (\<lambda>written.
      andThen (getWorkspaces e (pathJoin e [workspaceRoot, str ''package.json''])) (\<lambda>workspaces.
        case written of
          Inl err \<Rightarrow> throw err
        | Inr _ \<Rightarrow>
            (let workspaceNodeModulesDirs =
                   map (\<lambda>glob. pathJoin e [workspaceRoot, glob, str ''node_modules'']) workspaces;
                 workspaceRootNodeModules = pathJoin e [workspaceRoot, str ''node_modules'']
             in andThen (trash_p e workspaceRootNodeModules) (\<lambda>_.
                andThen (trash_all e workspaceNodeModulesDirs) (\<lambda>moved.
                  case filter (\<lambda>(dir, ok). \<not> ok) moved of
                    (dir, _) # _ \<Rightarrow> throw (TrashError dir)
                  | [] \<Rightarrow>
                      andThen (exec_p e (str ''npm install && npm ls'') (Some workspaceRoot)) (\<lambda>r.
                        case r of ExecOk _ \<Rightarrow> ret True | ExecFail _ \<Rightarrow> ret False))))))))"

section \<open>uninstall\<close>

definition driver_key :: "jsstr \<Rightarrow> jsstr" where
  "driver_key driverName = str ''merge.'' @ driverName @ str ''.driver''"

definition created_key :: "jsstr \<Rightarrow> jsstr" where
  "created_key driverName = str ''merge.'' @ driverName @ str ''.created''"

definition findInstalled ::
  "env \<Rightarrow> jsstr \<Rightarrow> bool \<Rightarrow> (jsstr option \<times> jsstr option \<times> GitConfigWithSource) prog" where
  "findInstalled e driverName local =
     andThen (getGitConfigWithOrigins e local) (\<lambda>gitConfig.
       case gitConfig (driver_key driverName) of
         None \<Rightarrow> ret (None, None, gitConfig)
       | Some d \<Rightarrow>
           if cfg_filepath d \<noteq> [] then
             (case gitConfig (created_key driverName) of
                None \<Rightarrow> ret (Some (cfg_filepath d), None, gitConfig)
              | Some c \<Rightarrow>
                  if cfg_value c \<noteq> [] then ret (Some (cfg_filepath d), Some (cfg_value c), gitConfig)
                  else ret (Some (cfg_filepath d), None, gitConfig))
           else ret (None, None, gitConfig))"

text \<open>\<^verbatim>\<open>attr.match(/\smerge=(.*)$/i)\<close> at one start position: the group.\<close>

definition merge_attr_at :: "jsstr \<Rightarrow> jsstr option" where
  "merge_attr_at s =
     (case s of
        [] \<Rightarrow> None
      | c # r \<Rightarrow>
          if is_ws c then
            (case ci_strip (str ''merge='') r of
               None \<Rightarrow> None
             | Some g \<Rightarrow> if list_all (\<lambda>x. \<not> is_lt x) g then Some g else None)
          else None)"

text \<open>The test of the \<^verbatim>\<open>reduce\<close>: the line is kept.\<close>

definition keeps :: "jsstr \<Rightarrow> jsstr \<Rightarrow> bool" where
  "keeps driverName attr =
     (case regex_search merge_attr_at attr of
        None \<Rightarrow> True
      | Some g \<Rightarrow> g \<noteq> [] \<and> js_trim g \<noteq> driverName)"

definition newAttrs :: "jsstr \<Rightarrow> jsstr list \<Rightarrow> jsstr" where
  "newAttrs driverName gitAttributes =
     foldl (\<lambda>acc attr. if keeps driverName attr then acc @ attr @ [LF] else acc) [] gitAttributes"

definition no_such_section :: "jsstr \<Rightarrow> bool" where
  "no_such_section msg =
     (regex_search (\<lambda>s. case ci_strip (str ''no such section'') s of None \<Rightarrow> None | Some _ \<Rightarrow> Some ()) msg \<noteq> None)"

definition remove_section_cmd :: "jsstr \<Rightarrow> jsstr \<Rightarrow> jsstr" where
  "remove_section_cmd driverSource driverName =
     str ''git config --file='' @ driverSource @ str '' --remove-section merge.'' @ quoted driverName"

text \<open>Lines 460 to 514: the attributes file, once its path is known.\<close>

definition uninstall_attributes :: "env \<Rightarrow> jsstr \<Rightarrow> jsstr \<Rightarrow> bool \<Rightarrow> bool \<Rightarrow> bool prog" where
  "uninstall_attributes e driverName gitAttributesFilepath shouldDeleteAttrs didUninstall =
     andThen (readFile_p e gitAttributesFilepath) (\<lambda>r.
       case r of
         FsErr code \<Rightarrow> if code \<noteq> ENOENT then throw (FsError code) else ret didUninstall
       | FsOk content \<Rightarrow>
           (let contentAttrs = newAttrs driverName (js_split LF content) in
            if shouldDeleteAttrs \<and> js_trim contentAttrs = [] then
              andThen (unlink_p e gitAttributesFilepath) (\<lambda>u.
                case u of
                  FsOk _ \<Rightarrow> ret True
                | FsErr code \<Rightarrow> if code \<noteq> ENOENT then throw (FsError code) else ret didUninstall)
            else
              andThen (writeFile_p e gitAttributesFilepath contentAttrs) (\<lambda>w.
                case w of FsOk _ \<Rightarrow> ret True | FsErr code \<Rightarrow> throw (FsError code))))"

text \<open>Lines 445 to 472, then the attributes file: the driver was found in \<open>src\<close>.\<close>

definition remove_driver ::
  "env \<Rightarrow> jsstr \<Rightarrow> jsstr \<Rightarrow> jsstr option \<Rightarrow> GitConfigWithSource \<Rightarrow> bool prog" where
  "remove_driver e driverName src created gitConfig =
     andThen (exec_p e (remove_section_cmd src driverName) None) (\<lambda>r.
     andThen (case r of
                ExecOk _ \<Rightarrow> ret True
              | ExecFail msg \<Rightarrow> if \<not> no_such_section msg then throw (ExecError msg) else ret False) (\<lambda>didUninstall.
     andThen (case created of
                Some p \<Rightarrow> ret p
              | None \<Rightarrow> andThen (findGitAttributes e driverName (GivenConfig gitConfig)) (\<lambda>(p, _). ret p)) (\<lambda>gitAttributesFilepath.
       uninstall_attributes e driverName gitAttributesFilepath (created \<noteq> None) didUninstall)))"

definition uninstall :: "env \<Rightarrow> jsstr \<Rightarrow> bool \<Rightarrow> bool prog" where
  "uninstall e driverName local =
     andThen (findInstalled e driverName local) (\<lambda>(driverSource, created, gitConfig).
       case driverSource of
         None \<Rightarrow> ret False
       | Some src \<Rightarrow> remove_driver e driverName src created gitConfig)"

section \<open>Vocabulary of the statements\<close>

text \<open>The decimal numeral of a natural number, as \<^verbatim>\<open>npm --version\<close> prints a component.\<close>

fun decimal :: "nat \<Rightarrow> jsstr" where
  "decimal n = (if n < 10 then [48 + n] else decimal (n div 10) @ [48 + n mod 10])"

declare decimal.simps [simp del]

text \<open>
  Contents whose carriage returns all stand just before a line feed: files with LF or
  CRLF line ends.
\<close>

fun cr_only_before_lf :: "jsstr \<Rightarrow> bool" where
  "cr_only_before_lf [] = True"
| "cr_only_before_lf [c] = (c \<noteq> CR)"
| "cr_only_before_lf (c # d # cs) = ((c = CR \<longrightarrow> d = LF) \<and> cr_only_before_lf (d # cs))"

text \<open>A line without line feed and carriage return; the association line without its line end.\<close>

definition clean_line :: "jsstr \<Rightarrow> bool" where
  "clean_line l = (LF \<notin> set l \<and> CR \<notin> set l)"

definition assoc :: "jsstr \<Rightarrow> jsstr" where
  "assoc d = str ''package-lock.json merge='' @ d"

definition shaped :: "jsstr \<Rightarrow> jsstr list \<Rightarrow> bool" where
  "shaped d N = (\<forall>l\<in>set N. clean_line l \<and> \<not> line_matches d l)"

text \<open>
  A manifest's array as the statements about \<open>getWorkspaces\<close> write it: the key, and the
  items, each a double-quoted literal followed by the text up to the next one. Text is
  plain when it holds no quote and no closing bracket.
\<close>

definition WORKSPACES_KEY :: jsstr where
  "WORKSPACES_KEY = quoted (str ''workspaces'')"

definition render_items :: "(jsstr \<times> jsstr) list \<Rightarrow> jsstr" where
  "render_items items = concat (map (\<lambda>(g, s). quoted g @ s) items)"

definition plain_text :: "jsstr \<Rightarrow> bool" where
  "plain_text s = list_all (\<lambda>c. \<not> is_quote c \<and> c \<noteq> 93) s"

definition manifest_one :: jsstr where
  "manifest_one = str ''{'' @ quoted (str ''workspaces'') @ str '': ['' @ quoted (str ''packages/a'') @ str '']}''"

text \<open>What the re-read of the configuration confirms: the source of the path just written.\<close>

definition confirms :: "GitConfigWithSource \<Rightarrow> jsstr \<Rightarrow> jsstr option" where
  "confirms gitConfig filepath =
     (case getAttributesFilepathFromConfig gitConfig of
        None \<Rightarrow> None
      | Some (v, source) \<Rightarrow> if v = filepath \<and> source \<noteq> [] then Some source else None)"

text \<open>An event of a command other than the removal of the driver's section.\<close>

fun other_command :: "jsstr \<Rightarrow> event \<Rightarrow> bool" where
  "other_command d (EvExec cmd cwd r) = (\<forall>src. cmd \<noteq> remove_section_cmd src d)"
| "other_command d _ = False"

text \<open>A computation all of whose events satisfy a predicate, whatever happened before.\<close>

definition only :: "(event \<Rightarrow> bool) \<Rightarrow> 'a prog \<Rightarrow> bool" where
  "only P m = (\<forall>h. list_all P (snd (m h)))"

text \<open>What the removal of the section leaves of \<^verbatim>\<open>didUninstall\<close>; \<open>None\<close> when it throws.\<close>

definition removal_outcome :: "exec_result \<Rightarrow> bool option" where
  "removal_outcome r =
     (case r of ExecOk _ \<Rightarrow> Some True | ExecFail msg \<Rightarrow> if no_such_section msg then Some False else None)"

text \<open>
  The events of child processes; the two properties of the events of \<open>uninstall\<close>: a file
  is deleted only after a read with blank filtered content (and a read with other content
  is followed by the write), and something was done (the section removed, the file
  written or deleted).
\<close>

fun is_exec_event :: "event \<Rightarrow> bool" where
  "is_exec_event (EvExec cmd cwd r) = True"
| "is_exec_event _ = False"

definition deletes_only_blank :: "jsstr \<Rightarrow> event list \<Rightarrow> bool" where
  "deletes_only_blank d evs =
     ((\<forall>p u. EvUnlink p u \<in> set evs \<longrightarrow>
          (\<exists>content. EvReadFile p (FsOk content) \<in> set evs \<and> js_trim (newAttrs d (js_split LF content)) = []))
      \<and> (\<forall>p content. EvReadFile p (FsOk content) \<in> set evs \<and> js_trim (newAttrs d (js_split LF content)) \<noteq> [] \<longrightarrow>
          (\<forall>q u. EvUnlink q u \<notin> set evs)
          \<and> (\<exists>w. EvWriteFile p (newAttrs d (js_split LF content)) w \<in> set evs)))"

definition acted :: "jsstr \<Rightarrow> event list \<Rightarrow> bool" where
  "acted d evs =
     ((\<exists>src out. EvExec (remove_section_cmd src d) None (ExecOk out) \<in> set evs)
      \<or> (\<exists>p c. EvWriteFile p c (FsOk ()) \<in> set evs)
      \<or> (\<exists>p. EvUnlink p (FsOk ()) \<in> set evs))"

text \<open>
  An environment in which every command succeeds with no output, no file exists, every
  write and move succeeds, and paths are joined with \<^verbatim>\<open>/\<close>. The examples below change
  the answers they need.
\<close>

fun posix_join :: "jsstr list \<Rightarrow> jsstr" where
  "posix_join [] = []"
| "posix_join [p] = p"
| "posix_join (p # q # ps) = p @ [47] @ posix_join (q # ps)"

definition posix_dirname :: "jsstr \<Rightarrow> jsstr" where
  "posix_dirname p = rev (tl (dropWhile (\<lambda>c. c \<noteq> 47) (rev p)))"

definition quiet_env :: env where
  "quiet_env =
     \<lparr> exec = (\<lambda>h cmd cwd. ExecOk []),
       readFile = (\<lambda>h p. FsErr ENOENT),
       writeFile = (\<lambda>h p c. FsOk ()),
       unlink = (\<lambda>h p. FsOk ()),
       mkdir = (\<lambda>h p. FsOk ()),
       access = (\<lambda>h p. False),
       spawnSync = (\<lambda>h args. Some []),
       trash = (\<lambda>h p. True),
       homedir = str ''/h'',
       XDG_CONFIG_HOME = None,
       pathJoin = posix_join,
       pathDirname = posix_dirname,
       pathResolve = (\<lambda>p. p) \<rparr>"

text \<open>The quiet environment with a given answer to the listing of the configuration.\<close>

definition listing_env :: "jsstr \<Rightarrow> env" where
  "listing_env listing =
     quiet_env\<lparr>exec := \<lambda>h cmd cwd. if cmd = list_cmd False \<or> cmd = list_cmd True then ExecOk listing else ExecOk []\<rparr>"

definition listing_a :: jsstr where
  "listing_a = str ''file:/g'' @ [9] @ str ''core.attributesfile=/a''"

text \<open>The inputs of the examples about \<open>install\<close> and \<open>uninstall\<close>.\<close>

definition listing_created :: jsstr where
  "listing_created = str ''file:/g'' @ [9] @ str ''merge.d.driver=x'' @ [LF]
                     @ str ''file:/g'' @ [9] @ str ''merge.d.created=/a''"

definition listing_driver :: jsstr where
  "listing_driver = str ''file:/g'' @ [9] @ str ''merge.d.driver=x'' @ [LF]
                    @ str ''file:/g'' @ [9] @ str ''core.attributesfile=/a''"

definition tracked_file :: jsstr where
  "tracked_file = str ''*.txt text'' @ [LF] @ str ''package-lock.json merge=d'' @ [LF]"

definition user_file :: jsstr where
  "user_file = str ''*.txt text'' @ [LF]"

definition created_env :: env where
  "created_env = (listing_env listing_created)\<lparr>readFile := \<lambda>h p. FsOk tracked_file\<rparr>"

definition no_section_env :: env where
  "no_section_env =
     quiet_env\<lparr>exec := \<lambda>h cmd cwd. if cmd = list_cmd False then ExecOk listing_driver
                                  else ExecFail (str ''fatal: no such section: merge.d''),
               readFile := \<lambda>h p. FsOk user_file\<rparr>"

definition ATTRIBUTES :: jsstr where
  "ATTRIBUTES = str ''/h/.config/git/attributes''"

definition listing_after :: jsstr where
  "listing_after = str ''file:/h/.gitconfig'' @ [9] @ str ''core.attributesfile=/h/.config/git/attributes''"

definition preexisting_env :: env where
  "preexisting_env =
     quiet_env\<lparr>exec := \<lambda>h cmd cwd. if cmd = list_cmd False \<and> h \<noteq> [] then ExecOk listing_after else ExecOk [],
               readFile := \<lambda>h p. if p = ATTRIBUTES then FsOk user_file else FsErr ENOENT\<rparr>"

section \<open>Properties\<close>

subsection \<open>Computations\<close>

lemma andThen_run:
  "andThen m f h =
     (case m h of
        (Inl err, ev) \<Rightarrow> (Inl err, ev)
      | (Inr a, ev) \<Rightarrow> (fst (f a (h @ ev)), ev @ snd (f a (h @ ev))))"
  by (simp add: andThen_def split: prod.splits sum.splits)

lemma ret_run: "ret a h = (Inr a, [])"
  by (simp add: ret_def)

lemma throw_run: "throw err h = (Inl err, [])"
  by (simp add: throw_def)

lemma attempt_run: "attempt m h = (Inr (fst (m h)), snd (m h))"
  by (simp add: attempt_def split: prod.splits)

lemma exec_p_run: "exec_p e cmd cwd h = (Inr (exec e h cmd cwd), [EvExec cmd cwd (exec e h cmd cwd)])"
  by (simp add: exec_p_def Let_def)

lemma readFile_p_run: "readFile_p e p h = (Inr (readFile e h p), [EvReadFile p (readFile e h p)])"
  by (simp add: readFile_p_def Let_def)

lemma writeFile_p_run: "writeFile_p e p c h = (Inr (writeFile e h p c), [EvWriteFile p c (writeFile e h p c)])"
  by (simp add: writeFile_p_def Let_def)

lemma unlink_p_run: "unlink_p e p h = (Inr (unlink e h p), [EvUnlink p (unlink e h p)])"
  by (simp add: unlink_p_def Let_def)

lemma mkdir_p_run: "mkdir_p e p h = (Inr (mkdir e h p), [EvMkdir p (mkdir e h p)])"
  by (simp add: mkdir_p_def Let_def)

lemma trash_p_run: "trash_p e p h = (Inr (trash e h p), [EvTrash p (trash e h p)])"
  by (simp add: trash_p_def Let_def)

lemma spawnSync_p_run: "spawnSync_p e args h = (Inr (spawnSync e h args), [EvSpawn args (spawnSync e h args)])"
  by (simp add: spawnSync_p_def Let_def)

lemma exec_or_throw_run:
  "exec_or_throw e cmd cwd h =
     (case exec e h cmd cwd of
        ExecOk out \<Rightarrow> (Inr out, [EvExec cmd cwd (ExecOk out)])
      | ExecFail msg \<Rightarrow> (Inl (ExecError msg), [EvExec cmd cwd (ExecFail msg)]))"
  by (simp add: exec_or_throw_def andThen_run exec_p_run ret_run throw_run split: exec_result.splits)

lemmas run_simps = andThen_run ret_run throw_run attempt_run exec_p_run readFile_p_run writeFile_p_run
  unlink_p_run mkdir_p_run trash_p_run spawnSync_p_run exec_or_throw_run

subsection \<open>The version gate\<close>

lemma decimal_digits: "list_all is_digit (decimal n)"
proof (induction n rule: decimal.induct)
  case (1 n)
  show ?case
  proof (cases "n < 10")
    case True
    then show ?thesis by (subst decimal.simps) (simp add: is_digit_def)
  next
    case False
    have "n mod 10 < 10" by simp
    then have "n mod 10 \<le> 9" by arith
    with 1 False show ?thesis by (subst decimal.simps) (simp add: list_all_iff is_digit_def)
  qed
qed

lemma decimal_nonempty: "decimal n \<noteq> []"
  by (subst decimal.simps) simp

lemma digits_value_snoc: "digits_value (z @ [c]) = 10 * digits_value z + int (c - 48)"
  by (simp add: digits_value_def)

lemma digits_value_decimal: "digits_value (decimal n) = int n"
proof (induction n rule: decimal.induct)
  case (1 n)
  show ?case
  proof (cases "n < 10")
    case True
    then show ?thesis by (subst decimal.simps) (simp add: digits_value_def)
  next
    case False
    with 1 have "digits_value (decimal (n div 10)) = int (n div 10)" by simp
    moreover have "int n = int (10 * (n div 10) + n mod 10)" by simp
    then have "int n = 10 * int (n div 10) + int (n mod 10)"
      by (simp only: of_nat_add of_nat_mult of_nat_numeral)
    ultimately show ?thesis using False
      by (subst decimal.simps) (simp add: digits_value_snoc)
  qed
qed

lemma digit_not_ws: "is_digit c \<Longrightarrow> \<not> is_ws c"
  by (auto simp: is_digit_def is_ws_def)

lemma takeWhile_all_append:
  "list_all P xs \<Longrightarrow> (ys = [] \<or> \<not> P (hd ys)) \<Longrightarrow> takeWhile P (xs @ ys) = xs"
  by (induction xs) (auto simp: takeWhile_eq_Nil_iff neq_Nil_conv)

lemma parseInt_decimal:
  assumes "rest = [] \<or> \<not> is_digit (hd rest)"
  shows "parseInt (decimal n @ rest) = Some (int n)"
proof -
  obtain c cs where d: "decimal n = c # cs" using decimal_nonempty[of n] by (cases "decimal n") auto
  have dig: "list_all is_digit (c # cs)" using decimal_digits[of n] d by simp
  then have c: "is_digit c" by simp
  then have nws: "\<not> is_ws c" by (rule digit_not_ws)
  have ns: "c \<noteq> 43 \<and> c \<noteq> 45" using c by (auto simp: is_digit_def)
  have tw: "takeWhile is_digit ((c # cs) @ rest) = c # cs"
    using dig assms by (rule takeWhile_all_append)
  show ?thesis
    using nws ns tw digits_value_decimal[of n] d
    by (simp add: parseInt_def)
qed

lemma js_split_nonempty: "js_split sep s \<noteq> []"
  by (cases s) (auto split: if_splits, metis list.distinct(1) push_front.elims)

lemma js_split_prefix:
  "sep \<notin> set a \<Longrightarrow> hd (js_split sep (a @ sep # b)) = a"
proof (induction a)
  case Nil
  then show ?case by simp
next
  case (Cons x a)
  then have "hd (js_split sep (a @ sep # b)) = a" by simp
  then show ?case using Cons.prems js_split_nonempty[of sep "a @ sep # b"]
    by (cases "js_split sep (a @ sep # b)") auto
qed

lemma js_trim_keep:
  assumes "a \<noteq> []" "\<not> is_ws (hd a)" "\<not> is_ws (last a)"
  shows "\<exists>b'. js_trim (a @ b) = a @ b'"
proof -
  obtain x xs where a: "a = x # xs" using assms(1) by (cases a) auto
  have 1: "dropWhile is_ws (a @ b) = a @ b" using a assms(2) by simp
  have "dropWhile is_ws (rev b @ rev a) = dropWhile is_ws (rev b) @ rev a \<or> dropWhile is_ws (rev b @ rev a) = rev a"
  proof (cases "\<forall>c\<in>set (rev b). is_ws c")
    case True
    have "dropWhile is_ws (rev b @ rev a) = dropWhile is_ws (rev a)"
      by (rule dropWhile_append2) (use True in auto)
    moreover have "dropWhile is_ws (rev a) = rev a"
      using assms(1,3) by (cases "rev a") (auto simp: last_rev hd_rev)
    ultimately show ?thesis by simp
  next
    case False
    then have "dropWhile is_ws (rev b @ rev a) = dropWhile is_ws (rev b) @ rev a"
      by (auto simp: dropWhile_append1)
    then show ?thesis by simp
  qed
  then show ?thesis
    unfolding js_trim_def 1 by auto
qed

lemma version_ok_decimal:
  "version_ok (decimal n @ 46 # rest) = (7 \<le> n)"
proof -
  let ?a = "decimal n @ [46]"
  have dig: "list_all is_digit (decimal n)" by (rule decimal_digits)
  have ne: "decimal n \<noteq> []" by (rule decimal_nonempty)
  have "\<not> is_ws (hd ?a)" using ne dig by (cases "decimal n") (auto dest: digit_not_ws)
  moreover have "\<not> is_ws (last ?a)" by (simp add: is_ws_def)
  ultimately obtain b' where t: "js_trim (?a @ rest) = ?a @ b'"
    using js_trim_keep[of ?a rest] by auto
  have nodot: "46 \<notin> set (decimal n)"
    using dig by (auto simp: list_all_iff is_digit_def)
  have "hd (js_split 46 (decimal n @ 46 # b')) = decimal n"
    using nodot by (rule js_split_prefix)
  then have "hd (map parseInt (js_split 46 (decimal n @ 46 # b'))) = parseInt (decimal n)"
    using js_split_nonempty[of 46 "decimal n @ 46 # b'"] by (simp add: hd_map)
  moreover have "parseInt (decimal n) = Some (int n)"
    using parseInt_decimal[of "[]" n] by simp
  ultimately show ?thesis
    using t by (simp add: version_ok_def)
qed

lemma version_ok_examples:
  "version_ok (str ''6.9.9'') = False"
  "version_ok (str ''7.0.0'') = True"
  "version_ok (str ''abc'') = False"
  by (simp_all add: version_ok_def str_def js_trim_def is_ws_def parseInt_def is_digit_def digits_value_def)

lemma version_ok_iff:
  "version_ok out = (\<exists>n. parseInt (hd (js_split 46 (js_trim out))) = Some n \<and> 7 \<le> n)"
  using js_split_nonempty[of 46 "js_trim out"]
  by (auto simp: version_ok_def hd_map split: option.splits)

text \<open>
  C7. The version gate never throws. When \<^verbatim>\<open>npm --version\<close> fails it answers false; when
  it prints \<open>out\<close> it answers true exactly when the first dot-separated component of the
  trimmed output parses (as \<^verbatim>\<open>parseInt(_, 10)\<close> parses) to an integer that is at least 7.
  A version whose first component is the decimal numeral of \<open>n\<close> passes exactly when
  \<open>7 \<le> n\<close>; \<^verbatim>\<open>6.9.9\<close> and \<^verbatim>\<open>abc\<close> fail and \<^verbatim>\<open>7.0.0\<close> passes.
\<close>

theorem isNpmV7OrGreater_gate:
  "(\<exists>b ev. isNpmV7OrGreater e h = (Inr b, ev))
   \<and> (\<forall>msg. exec e h (str ''npm --version'') None = ExecFail msg \<longrightarrow>
          fst (isNpmV7OrGreater e h) = Inr False)
   \<and> (\<forall>out. exec e h (str ''npm --version'') None = ExecOk out \<longrightarrow>
          fst (isNpmV7OrGreater e h)
            = Inr (\<exists>n. parseInt (hd (js_split 46 (js_trim out))) = Some n \<and> 7 \<le> n))
   \<and> (\<forall>n rest. exec e h (str ''npm --version'') None = ExecOk (decimal n @ 46 # rest) \<longrightarrow>
          fst (isNpmV7OrGreater e h) = Inr (7 \<le> n))
   \<and> (exec e h (str ''npm --version'') None = ExecOk (str ''6.9.9'') \<longrightarrow>
          fst (isNpmV7OrGreater e h) = Inr False)
   \<and> (exec e h (str ''npm --version'') None = ExecOk (str ''7.0.0'') \<longrightarrow>
          fst (isNpmV7OrGreater e h) = Inr True)
   \<and> (exec e h (str ''npm --version'') None = ExecOk (str ''abc'') \<longrightarrow>
          fst (isNpmV7OrGreater e h) = Inr False)"
proof -
  have run: "isNpmV7OrGreater e h =
      (case exec e h (str ''npm --version'') None of
         ExecOk out \<Rightarrow> (Inr (version_ok out), [EvExec (str ''npm --version'') None (ExecOk out)])
       | ExecFail msg \<Rightarrow> (Inr False, [EvExec (str ''npm --version'') None (ExecFail msg)]))"
    by (simp add: isNpmV7OrGreater_def run_simps split: exec_result.splits)
  show ?thesis
    unfolding run
    by (cases "exec e h (str ''npm --version'') None")
       (auto simp: version_ok_iff[symmetric] version_ok_decimal version_ok_examples)
qed

theorem isNpmV7OrGreater_gate_witness:
  "fst (isNpmV7OrGreater (quiet_env\<lparr>exec := \<lambda>h cmd cwd. ExecOk (str ''7.0.0'')\<rparr>) []) = Inr True
   \<and> fst (isNpmV7OrGreater (quiet_env\<lparr>exec := \<lambda>h cmd cwd. ExecOk (decimal 6 @ 46 # str ''14.18'')\<rparr>) []) = Inr False
   \<and> fst (isNpmV7OrGreater (quiet_env\<lparr>exec := \<lambda>h cmd cwd. ExecFail (str ''not found'')\<rparr>) []) = Inr False"
proof -
  let ?e1 = "quiet_env\<lparr>exec := \<lambda>h cmd cwd. ExecOk (str ''7.0.0'')\<rparr>"
  let ?e2 = "quiet_env\<lparr>exec := \<lambda>h cmd cwd. ExecOk (decimal 6 @ 46 # str ''14.18'')\<rparr>"
  let ?e3 = "quiet_env\<lparr>exec := \<lambda>h cmd cwd. ExecFail (str ''not found'')\<rparr>"
  have "exec ?e1 [] (str ''npm --version'') None = ExecOk (str ''7.0.0'')" by simp
  with isNpmV7OrGreater_gate[of ?e1 "[]"]
  have 1: "fst (isNpmV7OrGreater ?e1 []) = Inr True" by blast
  have "exec ?e2 [] (str ''npm --version'') None = ExecOk (decimal 6 @ 46 # str ''14.18'')" by simp
  with isNpmV7OrGreater_gate[of ?e2 "[]", THEN conjunct2, THEN conjunct2, THEN conjunct2,
         THEN conjunct1, rule_format, of 6 "str ''14.18''"]
  have "fst (isNpmV7OrGreater ?e2 []) = Inr (7 \<le> (6::nat))" by simp
  then have 2: "fst (isNpmV7OrGreater ?e2 []) = Inr False" by simp
  have "exec ?e3 [] (str ''npm --version'') None = ExecFail (str ''not found'')" by simp
  with isNpmV7OrGreater_gate[of ?e3 "[]"]
  have 3: "fst (isNpmV7OrGreater ?e3 []) = Inr False" by blast
  from 1 2 3 show ?thesis by blast
qed

subsection \<open>The association line\<close>

lemma set_push_front: "ls \<noteq> [] \<Longrightarrow> set (push_front c ls) = insert (c # hd ls) (set (tl ls))"
  by (cases ls) auto

lemma split_crlf_nonempty: "split_crlf s \<noteq> []"
  by (induction s rule: split_crlf.induct) (auto simp: neq_Nil_conv elim: push_front.elims)

lemma push_front_clean:
  "ls \<noteq> [] \<Longrightarrow> c \<noteq> LF \<Longrightarrow> c \<noteq> CR \<Longrightarrow> \<forall>l\<in>set ls. clean_line l \<Longrightarrow> \<forall>l\<in>set (push_front c ls). clean_line l"
  by (cases ls) (auto simp: clean_line_def)

lemma split_crlf_clean:
  "cr_only_before_lf s \<Longrightarrow> \<forall>l\<in>set (split_crlf s). clean_line l"
proof (induction s rule: split_crlf.induct)
  case 1
  then show ?case by (simp add: clean_line_def)
next
  case (2 c)
  then show ?case by (auto simp: clean_line_def)
next
  case (3 c d cs)
  show ?case
  proof (cases "c = LF")
    case True
    with 3 show ?thesis by (auto simp: clean_line_def)
  next
    case False
    note nlf = this
    show ?thesis
    proof (cases "c = CR")
      case True
      with 3 nlf have d: "d = LF" by simp
      have "cr_only_before_lf cs" using "3.prems" by (cases cs) auto
      with 3 True d nlf show ?thesis by (auto simp: clean_line_def)
    next
      case False
      with nlf 3 have "\<forall>l\<in>set (split_crlf (d # cs)). clean_line l" by simp
      with False nlf have "\<forall>l\<in>set (push_front c (split_crlf (d # cs))). clean_line l"
        by (intro push_front_clean split_crlf_nonempty)
      with False nlf show ?thesis by simp
    qed
  qed
qed

lemma split_crlf_clean_line: "clean_line l \<Longrightarrow> split_crlf l = [l]"
  by (induction l rule: split_crlf.induct) (auto simp: clean_line_def)

lemma split_crlf_line_LF: "clean_line l \<Longrightarrow> split_crlf (l @ LF # rest) = l # split_crlf rest"
proof (induction l)
  case Nil
  then show ?case by (cases rest) auto
next
  case (Cons c l)
  then have ih: "split_crlf (l @ LF # rest) = l # split_crlf rest" by (simp add: clean_line_def)
  obtain x xs where x: "l @ LF # rest = x # xs" by (cases "l @ LF # rest") auto
  from Cons.prems have "c \<noteq> LF" "c \<noteq> CR" by (auto simp: clean_line_def)
  then have "split_crlf (c # x # xs) = push_front c (split_crlf (x # xs))" by simp
  with ih x show ?case by simp
qed

lemma split_crlf_join:
  "M \<noteq> [] \<Longrightarrow> \<forall>l\<in>set M. clean_line l \<Longrightarrow> split_crlf (js_join M) = M"
proof (induction M rule: js_join.induct)
  case 1
  then show ?case by simp
next
  case (2 l)
  then show ?case by (simp add: split_crlf_clean_line)
next
  case (3 l m ls)
  then show ?case by (simp add: split_crlf_line_LF)
qed

lemma js_join_snoc: "N \<noteq> [] \<Longrightarrow> js_join (N @ [x]) = js_join N @ [LF] @ x"
  by (induction N rule: js_join.induct) auto

lemma regex_search_here: "f s = Some g \<Longrightarrow> regex_search f s = Some g"
  by (cases s) auto

lemma plain_not_ws: "plain_name (c # cs) \<Longrightarrow> \<not> is_ws c"
  by (auto simp: plain_name_def is_ws_def)

lemma plain_dropWhile: "plain_name d \<Longrightarrow> dropWhile is_ws d = d"
  by (cases d) (auto dest: plain_not_ws)

lemma assoc_matches: "plain_name d \<Longrightarrow> line_matches d (assoc d)"
proof -
  assume p: "plain_name d"
  have "association_at d (assoc d) = Some ()"
    using plain_dropWhile[OF p]
    by (simp add: association_at_def assoc_def strip_prefix_def LOCKFILE_def str_def is_ws_def)
  then show ?thesis
    by (simp add: line_matches_def regex_search_here)
qed

lemma empty_no_match: "\<not> line_matches d []"
  by (simp add: line_matches_def association_at_def strip_prefix_def LOCKFILE_def str_def)

lemma assoc_clean: "plain_name d \<Longrightarrow> clean_line (assoc d)"
  by (auto simp: clean_line_def assoc_def str_def plain_name_def list_all_iff LF_def CR_def)

lemma association_line_assoc: "association_line d = assoc d @ [LF]"
  by (simp add: association_line_def assoc_def)

text \<open>
  Whatever the file held, the text written is a list of clean lines that do not match,
  then the association line, then the empty last line.
\<close>

lemma finish_shape:
  assumes K: "\<forall>l\<in>set K. clean_line l \<and> \<not> line_matches d l"
  shows "\<exists>N. shaped d N \<and> finish_contents d (js_join K) = js_join (N @ [assoc d, []])"
proof (cases K rule: rev_cases)
  case Nil
  have "finish_contents d (js_join K) = js_join ([] @ [assoc d, []])"
    using Nil by (simp add: finish_contents_def association_line_assoc)
  moreover have "shaped d []" by (simp add: shaped_def)
  ultimately show ?thesis by blast
next
  case (snoc K' l)
  show ?thesis
  proof (cases "l = []")
    case True
    note l = this
    show ?thesis
    proof (cases "K' = []")
      case True
      have "finish_contents d (js_join K) = js_join ([] @ [assoc d, []])"
        using snoc l True by (simp add: finish_contents_def association_line_assoc)
      moreover have "shaped d []" by (simp add: shaped_def)
      ultimately show ?thesis by blast
    next
      case False
      have j: "js_join K = js_join K' @ [LF]"
        using snoc l False by (simp add: js_join_snoc)
      have "js_join (K' @ [assoc d, []]) = js_join (K' @ [assoc d]) @ [LF]"
        using js_join_snoc[of "K' @ [assoc d]" "[]"] by simp
      also have "\<dots> = js_join K' @ [LF] @ assoc d @ [LF]"
        using False by (simp add: js_join_snoc)
      finally have "finish_contents d (js_join K) = js_join (K' @ [assoc d, []])"
        using j by (simp add: finish_contents_def association_line_assoc)
      moreover have "shaped d K'" using K snoc by (simp add: shaped_def)
      ultimately show ?thesis by blast
    qed
  next
    case False
    have cl: "clean_line l" using K snoc by simp
    have "js_join K \<noteq> []" using snoc False by (cases "K' = []") (auto simp: js_join_snoc)
    moreover have "last (js_join K) = last l"
      using snoc False by (cases "K' = []") (auto simp: js_join_snoc)
    moreover have "last l \<noteq> LF \<and> last l \<noteq> CR"
      using cl False by (auto simp: clean_line_def dest: last_in_set)
    ultimately have "finish_contents d (js_join K) = [LF] @ assoc d @ [LF]"
      by (simp add: finish_contents_def association_line_assoc)
    then have "finish_contents d (js_join K) = js_join ([[]] @ [assoc d, []])"
      by simp
    moreover have "shaped d [[]]" by (simp add: shaped_def clean_line_def empty_no_match)
    ultimately show ?thesis by blast
  qed
qed

lemma written_shape:
  assumes "case prior of None \<Rightarrow> True | Some c \<Rightarrow> cr_only_before_lf c"
  shows "\<exists>N. shaped d N \<and> written_contents d prior = js_join (N @ [assoc d, []])"
proof (cases prior)
  case None
  have "written_contents d prior = js_join ([] @ [assoc d, []])"
    using None by (simp add: written_contents_def finish_contents_def association_line_assoc)
  moreover have "shaped d []" by (simp add: shaped_def)
  ultimately show ?thesis by blast
next
  case (Some c)
  with assms have "cr_only_before_lf c" by simp
  then have "\<forall>l\<in>set (split_crlf c). clean_line l" by (rule split_crlf_clean)
  then have "\<forall>l\<in>set (filter (\<lambda>line. \<not> line_matches d line) (split_crlf c)). clean_line l \<and> \<not> line_matches d l"
    by simp
  from finish_shape[OF this] show ?thesis
    using Some by (simp add: written_contents_def strip_association_def)
qed

lemma shaped_fixpoint:
  assumes p: "plain_name d" and N: "shaped d N"
  shows "written_contents d (Some (js_join (N @ [assoc d, []]))) = js_join (N @ [assoc d, []])"
    and "length (filter (line_matches d) (split_crlf (js_join (N @ [assoc d, []])))) = 1"
proof -
  have cl: "\<forall>l\<in>set (N @ [assoc d, []]). clean_line l"
    using N assoc_clean[OF p] by (auto simp: shaped_def clean_line_def)
  have sp: "split_crlf (js_join (N @ [assoc d, []])) = N @ [assoc d, []]"
    by (rule split_crlf_join) (use cl in auto)
  have fN: "filter (\<lambda>line. \<not> line_matches d line) N = N"
    using N by (auto simp: shaped_def filter_id_conv)
  have f: "filter (\<lambda>line. \<not> line_matches d line) (N @ [assoc d, []]) = N @ [[]]"
    using fN assoc_matches[OF p] empty_no_match[of d] by simp
  have "finish_contents d (js_join (N @ [[]])) = js_join (N @ [assoc d, []])"
  proof (cases "N = []")
    case True
    then show ?thesis by (simp add: finish_contents_def association_line_assoc)
  next
    case False
    have "js_join (N @ [assoc d, []]) = js_join (N @ [assoc d]) @ [LF]"
      using js_join_snoc[of "N @ [assoc d]" "[]"] by simp
    also have "\<dots> = js_join N @ [LF] @ assoc d @ [LF]"
      using False by (simp add: js_join_snoc)
    finally show ?thesis
      using False by (simp add: finish_contents_def association_line_assoc js_join_snoc)
  qed
  then show "written_contents d (Some (js_join (N @ [assoc d, []]))) = js_join (N @ [assoc d, []])"
    unfolding written_contents_def strip_association_def option.case sp f by simp
  have "filter (line_matches d) N = []"
    using N by (auto simp: shaped_def filter_empty_conv)
  then show "length (filter (line_matches d) (split_crlf (js_join (N @ [assoc d, []])))) = 1"
    using assoc_matches[OF p] empty_no_match[of d] by (simp add: sp)
qed

lemmas written_defs = written_contents_def strip_association_def finish_contents_def line_matches_def
  association_at_def strip_prefix_def association_line_def str_def LOCKFILE_def LF_def CR_def is_ws_def

lemma written_stray_cr_first:
  "written_contents (str ''d'') (Some (str ''a'' @ [CR]))
     = str ''a'' @ [CR] @ str ''package-lock.json merge=d'' @ [LF]"
  by (simp add: written_defs)

lemma written_stray_cr_second:
  "written_contents (str ''d'') (Some (str ''a'' @ [CR] @ str ''package-lock.json merge=d'' @ [LF]))
     = str ''package-lock.json merge=d'' @ [LF]"
  by (simp add: written_defs)

lemma written_unterminated:
  "written_contents (str ''d'') (Some (str ''*.txt text'')) = [LF] @ str ''package-lock.json merge=d'' @ [LF]"
  by (simp add: written_defs)

lemma written_terminated:
  "written_contents (str ''d'') (Some (str ''*.txt text'' @ [LF]))
     = str ''*.txt text'' @ [LF] @ str ''package-lock.json merge=d'' @ [LF]"
  by (simp add: written_defs)

text \<open>
  C3. At a file that holds \<^verbatim>\<open>*.txt text\<close> without a line end, \<open>updateGitAttributes\<close> writes
  a line feed and the association line: the line the file held, which does not match the
  expression, is not in the text written. (With the line end, the line is kept.)
\<close>

theorem updateGitAttributes_discards_unterminated_content:
  "updateGitAttributes (quiet_env\<lparr>readFile := \<lambda>h p. FsOk (str ''*.txt text'')\<rparr>) (str ''/a'') (str ''d'') []
     = (Inr (), [EvReadFile (str ''/a'') (FsOk (str ''*.txt text'')),
                 EvWriteFile (str ''/a'') ([LF] @ str ''package-lock.json merge=d'' @ [LF]) (FsOk ())])
   \<and> \<not> line_matches (str ''d'') (str ''*.txt text'')
   \<and> str ''*.txt text'' \<notin> set (split_crlf ([LF] @ str ''package-lock.json merge=d'' @ [LF]))
   \<and> written_contents (str ''d'') (Some (str ''*.txt text'' @ [LF]))
       = str ''*.txt text'' @ [LF] @ str ''package-lock.json merge=d'' @ [LF]"
proof -
  have "updateGitAttributes (quiet_env\<lparr>readFile := \<lambda>h p. FsOk (str ''*.txt text'')\<rparr>) (str ''/a'') (str ''d'') []
     = (Inr (), [EvReadFile (str ''/a'') (FsOk (str ''*.txt text'')),
                 EvWriteFile (str ''/a'') ([LF] @ str ''package-lock.json merge=d'' @ [LF]) (FsOk ())])"
    by (simp add: updateGitAttributes_def run_simps quiet_env_def written_unterminated)
  moreover have "\<not> line_matches (str ''d'') (str ''*.txt text'')"
    by (simp add: written_defs)
  moreover have "str ''*.txt text'' \<notin> set (split_crlf ([LF] @ str ''package-lock.json merge=d'' @ [LF]))"
    by (simp add: str_def LF_def CR_def)
  ultimately show ?thesis using written_terminated by simp
qed

text \<open>
  C6, as stated, fails at a file that ends in a lone carriage return: the first call
  writes \<^verbatim>\<open>a\rpackage-lock.json merge=d\n\<close>, the second call takes that for one matching
  line and writes the association line alone.
\<close>

theorem addAssociation_not_idempotent_after_stray_cr:
  "written_contents (str ''d'') (Some (str ''a'' @ [CR]))
     = str ''a'' @ [CR] @ str ''package-lock.json merge=d'' @ [LF]
   \<and> written_contents (str ''d'') (Some (written_contents (str ''d'') (Some (str ''a'' @ [CR]))))
     = str ''package-lock.json merge=d'' @ [LF]
   \<and> written_contents (str ''d'') (Some (written_contents (str ''d'') (Some (str ''a'' @ [CR]))))
     \<noteq> written_contents (str ''d'') (Some (str ''a'' @ [CR]))"
  using written_stray_cr_first written_stray_cr_second by (simp add: str_def)

text \<open>
  C6, amended. For a driver name of letters, digits, hyphens and underscores, and a file
  that does not exist or whose carriage returns all stand just before a line feed, a
  second call of \<open>updateGitAttributes\<close> writes what the first call wrote, and that text
  has exactly one line that matches the association.
\<close>

theorem addAssociation_idempotent_without_stray_cr:
  assumes "plain_name d"
      and "case prior of None \<Rightarrow> True | Some c \<Rightarrow> cr_only_before_lf c"
  shows "written_contents d (Some (written_contents d prior)) = written_contents d prior
       \<and> length (filter (line_matches d) (split_crlf (written_contents d prior))) = 1"
proof -
  from written_shape[OF assms(2)] obtain N where
    N: "shaped d N" "written_contents d prior = js_join (N @ [assoc d, []])" by blast
  from shaped_fixpoint[OF assms(1) N(1)] N(2) show ?thesis by simp
qed

theorem addAssociation_idempotent_without_stray_cr_witness:
  "written_contents (str ''d'') (Some (written_contents (str ''d'') (Some (str ''a'' @ [CR, LF] @ str ''b'' @ [CR, LF]))))
     = written_contents (str ''d'') (Some (str ''a'' @ [CR, LF] @ str ''b'' @ [CR, LF]))
   \<and> length (filter (line_matches (str ''d''))
        (split_crlf (written_contents (str ''d'') (Some (str ''a'' @ [CR, LF] @ str ''b'' @ [CR, LF]))))) = 1
   \<and> written_contents (str ''d'') (Some (written_contents (str ''d'') None)) = written_contents (str ''d'') None"
proof -
  have p: "plain_name (str ''d'')" by (simp add: plain_name_def str_def)
  have c: "case Some (str ''a'' @ [CR, LF] @ str ''b'' @ [CR, LF]) of None \<Rightarrow> True | Some c \<Rightarrow> cr_only_before_lf c"
    by (simp add: str_def CR_def LF_def)
  have n: "case (None :: jsstr option) of None \<Rightarrow> True | Some c \<Rightarrow> cr_only_before_lf c"
    by simp
  from addAssociation_idempotent_without_stray_cr[OF p c]
       addAssociation_idempotent_without_stray_cr[OF p n]
  show ?thesis by simp
qed

subsection \<open>The workspaces of the manifest\<close>

lemma regex_search_skip:
  "\<forall>i<length pre. f (drop i (pre @ s)) = None \<Longrightarrow> regex_search f (pre @ s) = regex_search f s"
proof (induction pre)
  case Nil
  then show ?case by simp
next
  case (Cons c pre)
  from Cons.prems have "f (drop 0 ((c # pre) @ s)) = None" by blast
  then have h: "f (c # pre @ s) = None" by simp
  have "\<forall>i<length pre. f (drop i (pre @ s)) = None"
  proof (intro allI impI)
    fix i assume "i < length pre"
    then have "Suc i < length (c # pre)" by simp
    with Cons.prems have "f (drop (Suc i) ((c # pre) @ s)) = None" by blast
    then show "f (drop i (pre @ s)) = None" by simp
  qed
  with Cons.IH h show ?case by simp
qed

lemma regex_search_none:
  "\<forall>i\<le>length s. f (drop i s) = None \<Longrightarrow> regex_search f s = None"
proof (induction s)
  case Nil
  then show ?case by simp
next
  case (Cons c s)
  from Cons.prems have "f (drop 0 (c # s)) = None" by blast
  then have h: "f (c # s) = None" by simp
  have "\<forall>i\<le>length s. f (drop i s) = None"
  proof (intro allI impI)
    fix i assume "i \<le> length s"
    then have "Suc i \<le> length (c # s)" by simp
    with Cons.prems have "f (drop (Suc i) (c # s)) = None" by blast
    then show "f (drop i s) = None" by simp
  qed
  with Cons.IH h show ?case by simp
qed

lemma strip_prefix_None: "\<not> prefix p s \<Longrightarrow> strip_prefix p s = None"
  by (auto simp: strip_prefix_def prefix_def) (metis append_take_drop_id)

lemma strip_prefix_append: "strip_prefix p (p @ r) = Some r"
  by (simp add: strip_prefix_def)

lemma workspaces_at_no_key: "\<not> prefix WORKSPACES_KEY s \<Longrightarrow> workspaces_at s = None"
  by (simp add: workspaces_at_def WORKSPACES_KEY_def[symmetric] strip_prefix_None)

lemma dropWhile_stop: "\<not> P x \<Longrightarrow> dropWhile P (xs @ x # ys) = dropWhile P xs @ x # ys"
  by (induction xs) auto

lemma dropWhile_all: "list_all P xs \<Longrightarrow> \<not> P x \<Longrightarrow> dropWhile P (xs @ x # ys) = x # ys"
  by (induction xs) auto

lemma takeWhile_all: "list_all P xs \<Longrightarrow> \<not> P x \<Longrightarrow> takeWhile P (xs @ x # ys) = xs"
  by (induction xs) auto

lemma workspaces_at_array:
  assumes "list_all is_ws w1" "list_all is_ws w2" "93 \<notin> set body"
  shows "workspaces_at (WORKSPACES_KEY @ w1 @ 58 # w2 @ 91 # body @ 93 # post) = Some (dropWhile is_ws body)"
proof -
  have 1: "dropWhile is_ws (w1 @ 58 # w2 @ 91 # body @ 93 # post) = 58 # w2 @ 91 # body @ 93 # post"
    using assms(1) by (intro dropWhile_all) (auto simp: is_ws_def)
  have 2: "dropWhile is_ws (w2 @ 91 # body @ 93 # post) = 91 # body @ 93 # post"
    using assms(2) by (intro dropWhile_all) (auto simp: is_ws_def)
  have 3: "dropWhile is_ws (body @ 93 # post) = dropWhile is_ws body @ 93 # post"
    by (intro dropWhile_stop) (simp add: is_ws_def)
  have n: "93 \<notin> set (dropWhile is_ws body)"
    using assms(3) set_dropWhileD by fastforce 
  have 4: "takeWhile (\<lambda>x. x \<noteq> 93) (dropWhile is_ws body @ 93 # post) = dropWhile is_ws body"
    using n by (intro takeWhile_all) (auto simp: list_all_iff)
  have 5: "dropWhile (\<lambda>x. x \<noteq> 93) (dropWhile is_ws body @ 93 # post) = 93 # post"
    using n by (intro dropWhile_all) (auto simp: list_all_iff)
  show ?thesis
    unfolding workspaces_at_def WORKSPACES_KEY_def[symmetric] strip_prefix_append
    by (simp add: 1 2 3 4 5 Let_def)
qed

lemma quoted_matches_skip:
  "\<forall>c\<in>set s. \<not> is_quote c \<Longrightarrow> quoted_matches (s @ r) = quoted_matches r"
  by (induction s) auto

lemma quoted_matches_item:
  assumes "g \<noteq> []" "\<forall>c\<in>set g. \<not> is_quote c"
  shows "quoted_matches (quoted g @ r) = quoted g # quoted_matches r"
proof -
  have q: "is_quote DQ" by (simp add: is_quote_def)
  have t: "takeWhile (\<lambda>x. \<not> is_quote x) (g @ DQ # r) = g"
    using assms(2) by (intro takeWhile_all) (auto simp: list_all_iff is_quote_def)
  have d: "dropWhile (\<lambda>x. \<not> is_quote x) (g @ DQ # r) = DQ # r"
    using assms(2) by (intro dropWhile_all) (auto simp: list_all_iff is_quote_def)
  have "quoted_matches (DQ # g @ DQ # r) = (DQ # g @ [DQ]) # quoted_matches r"
    using assms(1) by (simp add: t d q)
  then show ?thesis by (simp add: quoted_def)
qed

lemma quoted_matches_items:
  assumes "\<forall>(g, s)\<in>set items. g \<noteq> [] \<and> plain_text g \<and> plain_text s"
  shows "quoted_matches (render_items items) = map (\<lambda>(g, s). quoted g) items"
  using assms
proof (induction items)
  case Nil
  then show ?case by (simp add: render_items_def)
next
  case (Cons it items)
  obtain g s where it: "it = (g, s)" by (cases it)
  from Cons.prems it have g: "g \<noteq> []" "\<forall>c\<in>set g. \<not> is_quote c" and s: "\<forall>c\<in>set s. \<not> is_quote c"
    by (auto simp: plain_text_def list_all_iff)
  have "render_items (it # items) = quoted g @ (s @ render_items items)"
    using it by (simp add: render_items_def)
  then have "quoted_matches (render_items (it # items)) = quoted g # quoted_matches (s @ render_items items)"
    using quoted_matches_item[OF g] by simp
  also have "quoted_matches (s @ render_items items) = quoted_matches (render_items items)"
    using s by (rule quoted_matches_skip)
  finally show ?case using Cons it by simp
qed

lemma strip_quotes_quoted: "\<forall>c\<in>set g. \<not> is_quote c \<Longrightarrow> strip_quotes (quoted g) = g"
  by (simp add: strip_quotes_def quoted_def is_quote_def)

lemma render_items_starts_quote: "items \<noteq> [] \<Longrightarrow> \<exists>r. render_items items = DQ # r"
  by (cases items) (auto simp: render_items_def quoted_def)

lemma extract_from_body:
  assumes items: "\<forall>(g, s)\<in>set items. g \<noteq> [] \<and> plain_text g \<and> plain_text s"
      and s0: "plain_text s0"
  shows "(if dropWhile is_ws (s0 @ render_items items) \<noteq> []
          then map strip_quotes (quoted_matches (dropWhile is_ws (s0 @ render_items items))) else [])
         = map fst items"
proof (cases "items = []")
  case True
  have "\<forall>c\<in>set (dropWhile is_ws s0). \<not> is_quote c"
    using s0 set_dropWhileD by (fastforce simp: plain_text_def list_all_iff)
  then have "quoted_matches (dropWhile is_ws s0 @ []) = quoted_matches []"
    by (rule quoted_matches_skip)
  with True show ?thesis by (simp add: render_items_def)
next
  case False
  then obtain r where r: "render_items items = DQ # r"
    using render_items_starts_quote by blast
  have nws: "\<not> is_ws DQ" by (simp add: is_ws_def DQ_def)
  have d: "dropWhile is_ws (s0 @ render_items items) = dropWhile is_ws s0 @ render_items items"
    unfolding r using nws by (rule dropWhile_stop)
  have nq: "\<forall>c\<in>set (dropWhile is_ws s0). \<not> is_quote c"
    using s0 set_dropWhileD by (fastforce simp: plain_text_def list_all_iff)
  have "quoted_matches (dropWhile is_ws s0 @ render_items items) = quoted_matches (render_items items)"
    using nq by (rule quoted_matches_skip)
  also have "\<dots> = map (\<lambda>(g, s). quoted g) items"
    using items by (rule quoted_matches_items)
  finally have q: "quoted_matches (dropWhile is_ws (s0 @ render_items items)) = map (\<lambda>(g, s). quoted g) items"
    using d by simp
  have "map strip_quotes (map (\<lambda>(g, s). quoted g) items) = map fst items"
    using items by (induction items) (auto simp: strip_quotes_quoted plain_text_def list_all_iff)
  moreover have "dropWhile is_ws (s0 @ render_items items) \<noteq> []"
    using d r by simp
  ultimately show ?thesis using q by simp
qed

lemma prefix_drop_sublist: "prefix K (drop i s) \<Longrightarrow> sublist K s"
  unfolding sublist_altdef' using suffix_drop by blast

lemma no_earlier_key:
  assumes "\<not> sublist K (pre @ butlast K)" "K \<noteq> []" "i < length pre"
  shows "\<not> prefix K (drop i (pre @ K @ rest))"
proof
  assume p: "prefix K (drop i (pre @ K @ rest))"
  let ?A = "pre @ butlast K"
  have split: "pre @ K @ rest = ?A @ (last K # rest)"
    using assms(2) by simp
  have len: "i + length K \<le> length ?A"
    using assms(2,3) by (cases K rule: rev_cases) auto
  have "K = take (length K) (drop i (pre @ K @ rest))"
    using p by (metis append_eq_conv_conj prefix_def)
  also have "\<dots> = take (length K) (drop i ?A @ (last K # rest))"
    using len by (simp only: split drop_append) simp
  also have "\<dots> = take (length K) (drop i ?A)"
    using len by simp
  finally have "prefix K (drop i ?A)"
    by (metis take_is_prefix)
  then have "sublist K ?A" by (rule prefix_drop_sublist)
  with assms(1) show False by blast
qed

lemma key_nonempty: "WORKSPACES_KEY \<noteq> []"
  by (simp add: WORKSPACES_KEY_def quoted_def)

lemma extract_workspaces_plain_array:
  assumes first: "\<not> sublist WORKSPACES_KEY (pre @ butlast WORKSPACES_KEY)"
      and ws: "list_all is_ws w1" "list_all is_ws w2"
      and items: "\<forall>(g, s)\<in>set items. g \<noteq> [] \<and> plain_text g \<and> plain_text s"
      and s0: "plain_text s0"
  shows "extract_workspaces (pre @ WORKSPACES_KEY @ w1 @ 58 # w2 @ 91 # s0 @ render_items items @ 93 # post)
           = map fst items"
proof -
  let ?rest = "WORKSPACES_KEY @ w1 @ 58 # w2 @ 91 # s0 @ render_items items @ 93 # post"
  have "\<forall>i<length pre. \<not> prefix WORKSPACES_KEY (drop i (pre @ ?rest))"
    using no_earlier_key[OF first key_nonempty] by simp
  then have "\<forall>i<length pre. workspaces_at (drop i (pre @ ?rest)) = None"
    by (simp add: workspaces_at_no_key)
  then have 1: "regex_search workspaces_at (pre @ ?rest) = regex_search workspaces_at ?rest"
    by (rule regex_search_skip)
  have nb: "93 \<notin> set (s0 @ render_items items)"
    using items s0 by (auto simp: render_items_def plain_text_def list_all_iff quoted_def DQ_def)
  have "workspaces_at (WORKSPACES_KEY @ w1 @ 58 # w2 @ 91 # (s0 @ render_items items) @ 93 # post)
      = Some (dropWhile is_ws (s0 @ render_items items))"
    using ws nb by (rule workspaces_at_array)
  then have 2: "workspaces_at ?rest = Some (dropWhile is_ws (s0 @ render_items items))" by simp
  have 3: "regex_search workspaces_at ?rest = Some (dropWhile is_ws (s0 @ render_items items))"
    using 2 by (cases ?rest) auto
  show ?thesis
    unfolding extract_workspaces_def 1 3 using extract_from_body[OF items s0] by simp
qed

lemma extract_workspaces_absent:
  assumes "\<not> sublist WORKSPACES_KEY content"
  shows "extract_workspaces content = []"
proof -
  have "\<forall>i\<le>length content. workspaces_at (drop i content) = None"
    using assms prefix_drop_sublist by (auto intro!: workspaces_at_no_key)
  then have "regex_search workspaces_at content = None" by (rule regex_search_none)
  then show ?thesis by (simp add: extract_workspaces_def)
qed

lemma getWorkspaces_run:
  "getWorkspaces e p h =
     (Inr (case readFile e h p of FsOk content \<Rightarrow> extract_workspaces content | FsErr code \<Rightarrow> []),
      [EvReadFile p (readFile e h p)])"
  by (simp add: getWorkspaces_def run_simps split: fs_result.splits)

lemmas workspaces_defs = extract_workspaces_def workspaces_at_def strip_prefix_def quoted_def
  is_quote_def strip_quotes_def str_def DQ_def SQ_def is_ws_def WORKSPACES_KEY_def

text \<open>
  C9, as stated, fails where a literal of the array holds a closing bracket or a quote:
  for the array \<^verbatim>\<open>["a]b"]\<close> the group ends at the first bracket and nothing is returned,
  and for \<^verbatim>\<open>["it's"]\<close> the string \<^verbatim>\<open>it\<close> is.
\<close>

theorem getWorkspaces_misses_bracket_in_literal:
  "fst (getWorkspaces
          (quiet_env\<lparr>readFile := \<lambda>h p. FsOk (str ''{'' @ WORKSPACES_KEY @ str '': ['' @ quoted (str ''a]b'') @ str '']}'')\<rparr>)
          (str ''package.json'') [])
     = Inr []
   \<and> fst (getWorkspaces
          (quiet_env\<lparr>readFile := \<lambda>h p. FsOk (str ''{'' @ WORKSPACES_KEY @ str '': ['' @ quoted (str ''it'' @ [SQ] @ str ''s'') @ str '']}'')\<rparr>)
          (str ''package.json'') [])
     = Inr [str ''it'']"
  by (simp add: getWorkspaces_run workspaces_defs)

text \<open>
  C9, amended. \<open>getWorkspaces\<close> never throws and makes one call, the read. A failed read
  gives the empty list, and so does a text without \<^verbatim>\<open>"workspaces"\<close>. When the first
  \<^verbatim>\<open>"workspaces"\<close> of the text is followed by optional white space, a colon, optional white
  space and a bracketed array whose items are non-empty double-quoted literals without
  quotes and closing brackets, with plain text between them, the result is the list of
  these literals in order, whatever stands before and after.
\<close>

theorem getWorkspaces_best_effort:
  "(\<exists>ws. getWorkspaces e p h = (Inr ws, [EvReadFile p (readFile e h p)]))
   \<and> (\<forall>code. readFile e h p = FsErr code \<longrightarrow> fst (getWorkspaces e p h) = Inr [])
   \<and> (\<forall>content. readFile e h p = FsOk content \<and> \<not> sublist WORKSPACES_KEY content \<longrightarrow>
          fst (getWorkspaces e p h) = Inr [])
   \<and> (\<forall>pre w1 w2 s0 items post.
          readFile e h p = FsOk (pre @ WORKSPACES_KEY @ w1 @ 58 # w2 @ 91 # s0 @ render_items items @ 93 # post)
          \<and> \<not> sublist WORKSPACES_KEY (pre @ butlast WORKSPACES_KEY)
          \<and> list_all is_ws w1 \<and> list_all is_ws w2 \<and> plain_text s0
          \<and> (\<forall>(g, s)\<in>set items. g \<noteq> [] \<and> plain_text g \<and> plain_text s) \<longrightarrow>
          fst (getWorkspaces e p h) = Inr (map fst items))"
proof (intro conjI allI impI)
  show "\<exists>ws. getWorkspaces e p h = (Inr ws, [EvReadFile p (readFile e h p)])"
    by (simp add: getWorkspaces_run)
next
  fix code assume "readFile e h p = FsErr code"
  then show "fst (getWorkspaces e p h) = Inr []" by (simp add: getWorkspaces_run)
next
  fix content assume "readFile e h p = FsOk content \<and> \<not> sublist WORKSPACES_KEY content"
  then show "fst (getWorkspaces e p h) = Inr []"
    by (simp add: getWorkspaces_run extract_workspaces_absent)
next
  fix pre w1 w2 s0 items post
  assume a: "readFile e h p = FsOk (pre @ WORKSPACES_KEY @ w1 @ 58 # w2 @ 91 # s0 @ render_items items @ 93 # post)
          \<and> \<not> sublist WORKSPACES_KEY (pre @ butlast WORKSPACES_KEY)
          \<and> list_all is_ws w1 \<and> list_all is_ws w2 \<and> plain_text s0
          \<and> (\<forall>(g, s)\<in>set items. g \<noteq> [] \<and> plain_text g \<and> plain_text s)"
  then have "extract_workspaces (pre @ WORKSPACES_KEY @ w1 @ 58 # w2 @ 91 # s0 @ render_items items @ 93 # post)
      = map fst items"
    by (intro extract_workspaces_plain_array) auto
  with a show "fst (getWorkspaces e p h) = Inr (map fst items)"
    by (simp add: getWorkspaces_run)
qed

theorem getWorkspaces_best_effort_witness:
  "fst (getWorkspaces
          (quiet_env\<lparr>readFile := \<lambda>h p. FsOk
             (str ''{ <<<<<<< HEAD '' @ quoted (str ''name'') @ str '': 1, ======= >>>>>>> b ''
              @ WORKSPACES_KEY @ [] @ 58 # str '' '' @ 91 # []
              @ render_items [(str ''packages/*'', str '', ''), (str ''apps/web'', [])] @ 93 # str ''}'')\<rparr>)
          (str ''package.json'') [])
     = Inr [str ''packages/*'', str ''apps/web'']
   \<and> fst (getWorkspaces quiet_env (str ''package.json'') []) = Inr []"
proof -
  let ?pre = "str ''{ <<<<<<< HEAD '' @ quoted (str ''name'') @ str '': 1, ======= >>>>>>> b ''"
  let ?items = "[(str ''packages/*'', str '', ''), (str ''apps/web'', [])]"
  let ?c = "?pre @ WORKSPACES_KEY @ [] @ 58 # str '' '' @ 91 # [] @ render_items ?items @ 93 # str ''}''"
  let ?e = "quiet_env\<lparr>readFile := \<lambda>h p. FsOk ?c\<rparr>"
  have r: "readFile ?e [] (str ''package.json'') = FsOk ?c" by simp
  have f: "\<not> sublist WORKSPACES_KEY (?pre @ butlast WORKSPACES_KEY)"
    by (simp add: WORKSPACES_KEY_def quoted_def str_def DQ_def sublist_Cons_right)
  have w: "list_all is_ws [] \<and> list_all is_ws (str '' '') \<and> plain_text []"
    by (simp add: str_def is_ws_def plain_text_def)
  have i: "\<forall>(g, s)\<in>set ?items. g \<noteq> [] \<and> plain_text g \<and> plain_text s"
    by (simp add: str_def plain_text_def is_quote_def DQ_def SQ_def)
  have q: "readFile quiet_env [] (str ''package.json'') = FsErr ENOENT"
    by (simp add: quiet_env_def)
  from getWorkspaces_best_effort[of ?e "str ''package.json''" "[]", THEN conjunct2, THEN conjunct2,
         THEN conjunct2, rule_format, of ?pre "[]" "str '' ''" "[]" ?items "str ''}''"] r f w i
  have 1: "fst (getWorkspaces ?e (str ''package.json'') []) = Inr (map fst ?items)" by blast
  from getWorkspaces_best_effort[of quiet_env "str ''package.json''" "[]", THEN conjunct2, THEN conjunct1,
         rule_format, OF q]
  have 2: "fst (getWorkspaces quiet_env (str ''package.json'') []) = Inr []" .
  from 1 2 show ?thesis by simp
qed

subsection \<open>The moves to the trash\<close>

lemma extract_manifest_one: "extract_workspaces manifest_one = [str ''packages/a'']"
  by (simp add: manifest_one_def workspaces_defs)

lemma merge_workspace_trash_fails:
  "merge (quiet_env\<lparr>readFile := \<lambda>h p. FsOk manifest_one,
                     trash := \<lambda>h p. p \<noteq> str ''r/packages/a/node_modules''\<rparr>)
      (str ''ours'') (str ''base'') (str ''theirs'') (str ''r/package-lock.json'') []
   = (Inl (TrashError (str ''r/packages/a/node_modules'')),
      [EvSpawn [str ''merge-file'', str ''-p'', str ''ours'', str ''base'', str ''theirs''] (Some []),
       EvWriteFile (str ''r/package-lock.json'') [] (FsOk ()),
       EvReadFile (str ''r/package.json'') (FsOk manifest_one),
       EvTrash (str ''r/node_modules'') True,
       EvTrash (str ''r/packages/a/node_modules'') False])"
  by (simp add: merge_def Let_def getWorkspaces_def run_simps quiet_env_def extract_manifest_one posix_dirname_def str_def)

lemma merge_root_trash_fails:
  "merge (quiet_env\<lparr>readFile := \<lambda>h p. FsOk manifest_one,
                     trash := \<lambda>h p. p \<noteq> str ''r/node_modules''\<rparr>)
      (str ''ours'') (str ''base'') (str ''theirs'') (str ''r/package-lock.json'') []
   = (Inr True,
      [EvSpawn [str ''merge-file'', str ''-p'', str ''ours'', str ''base'', str ''theirs''] (Some []),
       EvWriteFile (str ''r/package-lock.json'') [] (FsOk ()),
       EvReadFile (str ''r/package.json'') (FsOk manifest_one),
       EvTrash (str ''r/node_modules'') False,
       EvTrash (str ''r/packages/a/node_modules'') True,
       EvExec (str ''npm install && npm ls'') (Some (str ''r'')) (ExecOk [])])"
  by (simp add: merge_def Let_def getWorkspaces_def run_simps quiet_env_def extract_manifest_one posix_dirname_def str_def)

text \<open>
  C4. With one workspace \<^verbatim>\<open>packages/a\<close>, a failed move of that workspace's
  \<^verbatim>\<open>node_modules\<close> makes \<open>merge\<close> throw after the moves: \<^verbatim>\<open>npm install && npm ls\<close> is never
  run. The same failure on the root's \<^verbatim>\<open>node_modules\<close> is caught, and \<open>merge\<close> goes on to
  the reinstall.
\<close>

theorem merge_throws_when_workspace_trash_fails:
  "merge (quiet_env\<lparr>readFile := \<lambda>h p. FsOk manifest_one,
                     trash := \<lambda>h p. p \<noteq> str ''r/packages/a/node_modules''\<rparr>)
      (str ''ours'') (str ''base'') (str ''theirs'') (str ''r/package-lock.json'') []
   = (Inl (TrashError (str ''r/packages/a/node_modules'')),
      [EvSpawn [str ''merge-file'', str ''-p'', str ''ours'', str ''base'', str ''theirs''] (Some []),
       EvWriteFile (str ''r/package-lock.json'') [] (FsOk ()),
       EvReadFile (str ''r/package.json'') (FsOk manifest_one),
       EvTrash (str ''r/node_modules'') True,
       EvTrash (str ''r/packages/a/node_modules'') False])
   \<and> merge (quiet_env\<lparr>readFile := \<lambda>h p. FsOk manifest_one,
                     trash := \<lambda>h p. p \<noteq> str ''r/node_modules''\<rparr>)
      (str ''ours'') (str ''base'') (str ''theirs'') (str ''r/package-lock.json'') []
   = (Inr True,
      [EvSpawn [str ''merge-file'', str ''-p'', str ''ours'', str ''base'', str ''theirs''] (Some []),
       EvWriteFile (str ''r/package-lock.json'') [] (FsOk ()),
       EvReadFile (str ''r/package.json'') (FsOk manifest_one),
       EvTrash (str ''r/node_modules'') False,
       EvTrash (str ''r/packages/a/node_modules'') True,
       EvExec (str ''npm install && npm ls'') (Some (str ''r'')) (ExecOk [])])"
  using merge_workspace_trash_fails merge_root_trash_fails by simp

subsection \<open>Persisting the path of the attributes file\<close>

lemma getGitConfigWithOrigins_run:
  "getGitConfigWithOrigins e local h =
     (case exec e h (list_cmd local) None of
        ExecOk out \<Rightarrow> (Inr (parse_config out), [EvExec (list_cmd local) None (ExecOk out)])
      | ExecFail msg \<Rightarrow> (Inl (GitConfigError msg), [EvExec (list_cmd local) None (ExecFail msg)]))"
  by (simp add: getGitConfigWithOrigins_def run_simps split: exec_result.splits)

lemma setAttributesFilepath_run:
  "setAttributesFilepath e filepath d local h =
     (case exec e h (set_attributesfile_cmd local filepath) None of
        ExecFail msg \<Rightarrow> (Inl (ExecError msg), [EvExec (set_attributesfile_cmd local filepath) None (ExecFail msg)])
      | ExecOk out1 \<Rightarrow>
          (let h1 = h @ [EvExec (set_attributesfile_cmd local filepath) None (ExecOk out1)] in
           case exec e h1 (list_cmd local) None of
             ExecFail msg \<Rightarrow>
               (Inl (GitConfigError msg),
                [EvExec (set_attributesfile_cmd local filepath) None (ExecOk out1),
                 EvExec (list_cmd local) None (ExecFail msg)])
           | ExecOk out2 \<Rightarrow>
               (let h2 = h1 @ [EvExec (list_cmd local) None (ExecOk out2)] in
                case confirms (parse_config out2) filepath of
                  None \<Rightarrow>
                    (Inl (SetAttributesFailed filepath local),
                     [EvExec (set_attributesfile_cmd local filepath) None (ExecOk out1),
                      EvExec (list_cmd local) None (ExecOk out2)])
                | Some source \<Rightarrow>
                    (case exec e h2 (set_created_cmd local d source) None of
                       ExecOk out3 \<Rightarrow> Inr (filepath, source)
                     | ExecFail msg \<Rightarrow> Inl (ExecError msg),
                     [EvExec (set_attributesfile_cmd local filepath) None (ExecOk out1),
                      EvExec (list_cmd local) None (ExecOk out2),
                      EvExec (set_created_cmd local d source) None (exec e h2 (set_created_cmd local d source) None)]))))"
  by (simp add: setAttributesFilepath_def getGitConfigWithOrigins_run run_simps confirms_def Let_def
           split: exec_result.splits option.splits prod.splits)

lemma created_cmd_distinct:
  "set_created_cmd local d source \<noteq> set_attributesfile_cmd local' filepath"
  "set_created_cmd local d source \<noteq> list_cmd local'"
  by (cases local; cases local'; simp add: set_created_cmd_def set_attributesfile_cmd_def list_cmd_def scope_flag_def str_def)+


lemma quoted_inject: "quoted a = quoted b \<longleftrightarrow> a = b"
  by (simp add: quoted_def)

lemma set_created_cmd_inject:
  "set_created_cmd local d source = set_created_cmd local d source' \<longleftrightarrow> source = source'"
  by (simp add: set_created_cmd_def quoted_inject)

lemma confirms_None:
  "confirms gitConfig filepath = None \<longleftrightarrow>
     (case gitConfig (str ''core.attributesfile'') of
        None \<Rightarrow> True
      | Some entry \<Rightarrow> cfg_value entry = [] \<or> cfg_value entry \<noteq> filepath \<or> cfg_filepath entry = [])"
  by (auto simp: confirms_def getAttributesFilepathFromConfig_def split: option.splits)

lemma confirms_Some:
  "confirms gitConfig filepath = Some source \<longleftrightarrow>
     (\<exists>entry. gitConfig (str ''core.attributesfile'') = Some entry \<and> cfg_value entry = filepath
        \<and> filepath \<noteq> [] \<and> cfg_filepath entry = source \<and> source \<noteq> [])"
  by (auto simp: confirms_def getAttributesFilepathFromConfig_def split: option.splits)

text \<open>
  C8. \<open>setAttributesFilepath\<close> throws its own error (\<^verbatim>\<open>Failed to set core.attributesfile\<close>)
  exactly when the command that sets the key and the listing that re-reads the
  configuration both succeed and the listing has no \<^verbatim>\<open>core.attributesfile\<close>, or its value
  is empty or differs from the path written, or its source file is missing. The command
  that sets \<^verbatim>\<open>merge.<name>.created\<close> is issued exactly when the re-read confirms the path,
  after the two other commands, and with the source file of the confirmed entry; a result
  is returned only after that command succeeded. (A failing \<^verbatim>\<open>git\<close> command is thrown as
  it is.)
\<close>

theorem setAttributesFilepath_confirms_before_created:
  "(fst (setAttributesFilepath e filepath d local h) = Inl (SetAttributesFailed filepath local)
      \<longleftrightarrow> (\<exists>out1 out2.
             exec e h (set_attributesfile_cmd local filepath) None = ExecOk out1
           \<and> exec e (h @ [EvExec (set_attributesfile_cmd local filepath) None (ExecOk out1)]) (list_cmd local) None
               = ExecOk out2
           \<and> (case parse_config out2 (str ''core.attributesfile'') of
                 None \<Rightarrow> True
               | Some entry \<Rightarrow> cfg_value entry = [] \<or> cfg_value entry \<noteq> filepath \<or> cfg_filepath entry = [])))
   \<and> (\<forall>source r.
         EvExec (set_created_cmd local d source) None r \<in> set (snd (setAttributesFilepath e filepath d local h))
      \<longleftrightarrow> (\<exists>out1 out2 entry.
             exec e h (set_attributesfile_cmd local filepath) None = ExecOk out1
           \<and> exec e (h @ [EvExec (set_attributesfile_cmd local filepath) None (ExecOk out1)]) (list_cmd local) None
               = ExecOk out2
           \<and> parse_config out2 (str ''core.attributesfile'') = Some entry
           \<and> cfg_value entry = filepath \<and> filepath \<noteq> [] \<and> cfg_filepath entry = source \<and> source \<noteq> []
           \<and> r = exec e (h @ [EvExec (set_attributesfile_cmd local filepath) None (ExecOk out1),
                               EvExec (list_cmd local) None (ExecOk out2)])
                        (set_created_cmd local d source) None))
   \<and> (\<forall>g source. fst (setAttributesFilepath e filepath d local h) = Inr (g, source) \<longrightarrow>
         g = filepath
         \<and> (\<exists>out3. last (snd (setAttributesFilepath e filepath d local h))
                     = EvExec (set_created_cmd local d source) None (ExecOk out3)))"
proof -
  let ?c1 = "set_attributesfile_cmd local filepath"
  show ?thesis
  proof (cases "exec e h ?c1 None")
    case (ExecFail msg)
    then show ?thesis
      by (simp add: setAttributesFilepath_run created_cmd_distinct)
  next
    case (ExecOk out1)
    note o1 = this
    let ?h1 = "h @ [EvExec ?c1 None (ExecOk out1)]"
    show ?thesis
    proof (cases "exec e ?h1 (list_cmd local) None")
      case (ExecFail msg)
      with o1 show ?thesis
        by (simp add: setAttributesFilepath_run created_cmd_distinct)
    next
      case (ExecOk out2)
      note o2 = this
      show ?thesis
      proof (cases "confirms (parse_config out2) filepath")
        case None
        then have n: "(case parse_config out2 (str ''core.attributesfile'') of
                 None \<Rightarrow> True
               | Some entry \<Rightarrow> cfg_value entry = [] \<or> cfg_value entry \<noteq> filepath \<or> cfg_filepath entry = [])"
          by (simp add: confirms_None)
        have no: "\<And>source. confirms (parse_config out2) filepath \<noteq> Some source" using None by simp
        show ?thesis
          using o1 o2 None n no[unfolded confirms_Some]
          by (auto simp: setAttributesFilepath_run created_cmd_distinct)
      next
        case (Some src)
        then have nn: "\<not> (case parse_config out2 (str ''core.attributesfile'') of
                 None \<Rightarrow> True
               | Some entry \<Rightarrow> cfg_value entry = [] \<or> cfg_value entry \<noteq> filepath \<or> cfg_filepath entry = [])"
          using confirms_None[of "parse_config out2" filepath] by simp
        from Some obtain entry where en: "parse_config out2 (str ''core.attributesfile'') = Some entry"
          "cfg_value entry = filepath" "filepath \<noteq> []" "cfg_filepath entry = src" "src \<noteq> []"
          unfolding confirms_Some by blast
        show ?thesis
          using o1 o2 Some nn en
          by (auto simp: setAttributesFilepath_run created_cmd_distinct set_created_cmd_inject Let_def
                   split: exec_result.splits)
      qed
    qed
  qed
qed


lemmas parse_defs = parse_config_def parse_config_line_def strip_prefix_def str_def is_ws_def is_lt_def LF_def CR_def

lemma parse_listing_a:
  "parse_config listing_a (str ''core.attributesfile'') = Some \<lparr>cfg_filepath = str ''/g'', cfg_value = str ''/a''\<rparr>"
  by (simp add: listing_a_def parse_defs)

lemma attributesfile_cmd_not_list: "set_attributesfile_cmd local filepath \<noteq> list_cmd local'"
  by (cases local; cases local'; simp add: set_attributesfile_cmd_def list_cmd_def scope_flag_def str_def)

theorem setAttributesFilepath_confirms_before_created_witness:
  "fst (setAttributesFilepath (listing_env listing_a) (str ''/b'') (str ''d'') False [])
     = Inl (SetAttributesFailed (str ''/b'') False)
   \<and> EvExec (set_created_cmd False (str ''d'') (str ''/g'')) None (ExecOk [])
       \<in> set (snd (setAttributesFilepath (listing_env listing_a) (str ''/a'') (str ''d'') False []))
   \<and> fst (setAttributesFilepath (listing_env listing_a) (str ''/a'') (str ''d'') False [])
     = Inr (str ''/a'', str ''/g'')"
proof -
  let ?e = "listing_env listing_a"
  have x1: "\<And>f h. exec ?e h (set_attributesfile_cmd False f) None = ExecOk []"
    by (simp add: listing_env_def attributesfile_cmd_not_list)
  have x2: "\<And>h. exec ?e h (list_cmd False) None = ExecOk listing_a"
    by (simp add: listing_env_def)
  have x3: "\<And>h s. exec ?e h (set_created_cmd False (str ''d'') s) None = ExecOk []"
    by (simp add: listing_env_def created_cmd_distinct)
  have ne: "str ''/a'' \<noteq> str ''/b''" "str ''/a'' \<noteq> []" "str ''/g'' \<noteq> []" by (simp_all add: str_def)
  have 1: "fst (setAttributesFilepath ?e (str ''/b'') (str ''d'') False []) = Inl (SetAttributesFailed (str ''/b'') False)"
    using setAttributesFilepath_confirms_before_created[of ?e "str ''/b''" "str ''d''" False "[]", THEN conjunct1]
          x1 x2 parse_listing_a ne
    by simp
  have 2: "EvExec (set_created_cmd False (str ''d'') (str ''/g'')) None (ExecOk [])
       \<in> set (snd (setAttributesFilepath ?e (str ''/a'') (str ''d'') False []))"
    using setAttributesFilepath_confirms_before_created[of ?e "str ''/a''" "str ''d''" False "[]",
            THEN conjunct2, THEN conjunct1, rule_format, of "str ''/g''" "ExecOk []"]
          x1 x2 x3 parse_listing_a ne
    by simp
  have 3: "fst (setAttributesFilepath ?e (str ''/a'') (str ''d'') False []) = Inr (str ''/a'', str ''/g'')"
    using x1 x2 x3 parse_listing_a ne
    by (simp add: setAttributesFilepath_run confirms_def getAttributesFilepathFromConfig_def)
  from 1 2 3 show ?thesis by blast
qed

subsection \<open>Removing the driver\<close>

lemma parse_empty: "parse_config [] k = None"
  by (simp add: parse_defs)

lemma only_ret: "only P (ret a)"
  by (simp add: only_def ret_run)

lemma only_throw: "only P (throw err)"
  by (simp add: only_def throw_run)

lemma only_andThen: "only P m \<Longrightarrow> (\<And>a. only P (f a)) \<Longrightarrow> only P (andThen m f)"
  by (auto simp: only_def andThen_run split: prod.splits sum.splits)
     (metis snd_conv)+

lemma remove_section_not_list: "list_cmd local \<noteq> remove_section_cmd src d"
  by (cases local; simp add: list_cmd_def remove_section_cmd_def scope_flag_def str_def)

lemma remove_section_not_set: "set_attributesfile_cmd local f \<noteq> remove_section_cmd src d"
  by (simp add: set_attributesfile_cmd_def remove_section_cmd_def str_def)

lemma remove_section_not_created: "set_created_cmd local d' s \<noteq> remove_section_cmd src d"
  by (simp add: set_created_cmd_def remove_section_cmd_def str_def)

lemma remove_section_not_rev_parse: "str ''git rev-parse --git-dir'' \<noteq> remove_section_cmd src d"
  by (simp add: remove_section_cmd_def str_def)

lemmas not_remove_section = remove_section_not_list remove_section_not_set remove_section_not_created
  remove_section_not_rev_parse

lemma only_exec_p: "(\<And>src. cmd \<noteq> remove_section_cmd src d) \<Longrightarrow> only (other_command d) (exec_p e cmd cwd)"
  by (simp add: only_def exec_p_run)

lemma only_exec_or_throw: "(\<And>src. cmd \<noteq> remove_section_cmd src d) \<Longrightarrow> only (other_command d) (exec_or_throw e cmd cwd)"
  by (simp add: only_def exec_or_throw_run split: exec_result.splits)

lemma only_getGitConfigWithOrigins: "only (other_command d) (getGitConfigWithOrigins e local)"
  unfolding getGitConfigWithOrigins_def
  by (intro only_andThen only_exec_p) (auto simp: not_remove_section only_ret only_throw split: exec_result.splits)

lemma only_setAttributesFilepath: "only (other_command d) (setAttributesFilepath e f d' local)"
  unfolding setAttributesFilepath_def
  by (intro only_andThen only_exec_or_throw only_getGitConfigWithOrigins)
     (auto simp: not_remove_section only_ret only_throw intro!: only_andThen only_exec_or_throw split: option.splits)

lemma only_fallback_local: "only (other_command d) (fallback_local e d')"
  unfolding fallback_local_def Let_def
  by (intro only_andThen only_exec_or_throw only_setAttributesFilepath)
     (auto simp: not_remove_section only_ret)

lemma only_fallback_global: "only (other_command d) (fallback_global e d')"
  unfolding fallback_global_def Let_def
  by (intro only_andThen only_setAttributesFilepath) (auto simp: only_ret)

lemma only_findGitAttributes: "only (other_command d) (findGitAttributes e d' arg)"
  unfolding findGitAttributes_def Let_def
  by (intro only_andThen)
     (auto simp: only_ret only_fallback_local only_fallback_global
           intro!: only_andThen only_getGitConfigWithOrigins split: option.splits)

lemma only_findInstalled: "only (other_command d) (findInstalled e d' local)"
  unfolding findInstalled_def
  by (intro only_andThen only_getGitConfigWithOrigins)
     (auto simp: only_ret split: option.splits)

lemma uninstall_attributes_run:
  "uninstall_attributes e d path sd did h =
     (case readFile e h path of
        FsErr code \<Rightarrow>
          (if code \<noteq> ENOENT then Inl (FsError code) else Inr did, [EvReadFile path (FsErr code)])
      | FsOk content \<Rightarrow>
          (if sd \<and> js_trim (newAttrs d (js_split LF content)) = [] then
             (case unlink e (h @ [EvReadFile path (FsOk content)]) path of
                FsOk _ \<Rightarrow> Inr True
              | FsErr code \<Rightarrow> if code \<noteq> ENOENT then Inl (FsError code) else Inr did,
              [EvReadFile path (FsOk content),
               EvUnlink path (unlink e (h @ [EvReadFile path (FsOk content)]) path)])
           else
             (case writeFile e (h @ [EvReadFile path (FsOk content)]) path (newAttrs d (js_split LF content)) of
                FsOk _ \<Rightarrow> Inr True
              | FsErr code \<Rightarrow> Inl (FsError code),
              [EvReadFile path (FsOk content),
               EvWriteFile path (newAttrs d (js_split LF content))
                 (writeFile e (h @ [EvReadFile path (FsOk content)]) path (newAttrs d (js_split LF content)))])))"
  by (simp add: uninstall_attributes_def run_simps Let_def split: fs_result.splits)

lemma remove_driver_run:
  "remove_driver e d src created cfg h =
     (let r = exec e h (remove_section_cmd src d) None;
          E = EvExec (remove_section_cmd src d) None r
      in case removal_outcome r of
           None \<Rightarrow> (Inl (ExecError (case r of ExecFail msg \<Rightarrow> msg | ExecOk out \<Rightarrow> out)), [E])
         | Some did \<Rightarrow>
             (case created of
                Some p \<Rightarrow>
                  (fst (uninstall_attributes e d p True did (h @ [E])),
                   E # snd (uninstall_attributes e d p True did (h @ [E])))
              | None \<Rightarrow>
                  (case findGitAttributes e d (GivenConfig cfg) (h @ [E]) of
                     (Inl err, ev2) \<Rightarrow> (Inl err, E # ev2)
                   | (Inr (p, s), ev2) \<Rightarrow>
                       (fst (uninstall_attributes e d p False did (h @ E # ev2)),
                        E # ev2 @ snd (uninstall_attributes e d p False did (h @ E # ev2))))))"
proof (cases "exec e h (remove_section_cmd src d) None")
  case (ExecOk out)
  then show ?thesis
    by (cases created)
       (simp_all add: remove_driver_def run_simps Let_def removal_outcome_def split: prod.splits sum.splits)
next
  case (ExecFail msg)
  then show ?thesis
    by (cases created; cases "no_such_section msg")
       (simp_all add: remove_driver_def run_simps Let_def removal_outcome_def split: prod.splits sum.splits)
qed

lemma uninstall_run:
  "uninstall e d local h =
     (case findInstalled e d local h of
        (Inl err, ev0) \<Rightarrow> (Inl err, ev0)
      | (Inr (None, created, cfg), ev0) \<Rightarrow> (Inr False, ev0)
      | (Inr (Some src, created, cfg), ev0) \<Rightarrow>
          (fst (remove_driver e d src created cfg (h @ ev0)),
           ev0 @ snd (remove_driver e d src created cfg (h @ ev0))))"
  by (simp add: uninstall_def run_simps split: prod.splits sum.splits option.splits)

lemma other_command_exec: "other_command d ev \<Longrightarrow> is_exec_event ev"
  by (cases ev) auto

lemma exec_events_no_files:
  assumes "list_all is_exec_event pre"
  shows "EvUnlink p u \<notin> set pre" "EvReadFile p c \<notin> set pre" "EvWriteFile p x w \<notin> set pre"
  using assms by (auto simp: list_all_iff)

lemma dob_prefix:
  "list_all is_exec_event pre \<Longrightarrow> deletes_only_blank d evs \<Longrightarrow> deletes_only_blank d (pre @ evs)"
  unfolding deletes_only_blank_def
  using exec_events_no_files[of pre] by auto

lemma dob_exec: "list_all is_exec_event pre \<Longrightarrow> deletes_only_blank d pre"
  unfolding deletes_only_blank_def
  using exec_events_no_files[of pre] by auto

lemma dob_attributes: "deletes_only_blank d (snd (uninstall_attributes e d p sd did h))"
  by (auto simp: uninstall_attributes_run deletes_only_blank_def split: fs_result.splits)

lemma findGitAttributes_events:
  "findGitAttributes e d' arg h = (r, ev) \<Longrightarrow> list_all (other_command d) ev"
  using only_findGitAttributes[of d e d' arg] by (auto simp: only_def dest: spec[of _ h])

lemma findInstalled_events:
  "findInstalled e d' local h = (r, ev) \<Longrightarrow> list_all (other_command d) ev"
  using only_findInstalled[of d e d' local] by (auto simp: only_def dest: spec[of _ h])

lemma list_all_other_exec: "list_all (other_command d) ev \<Longrightarrow> list_all is_exec_event ev"
  by (auto simp: list_all_iff other_command_exec)

lemma dob_remove_driver: "deletes_only_blank d (snd (remove_driver e d src created cfg h))"
proof -
  let ?r = "exec e h (remove_section_cmd src d) None"
  let ?E = "EvExec (remove_section_cmd src d) None ?r"
  show ?thesis
  proof (cases "removal_outcome ?r")
    case None
    then show ?thesis by (simp add: remove_driver_run Let_def dob_exec)
  next
    case (Some did)
    show ?thesis
    proof (cases created)
      case (Some p)
      have "deletes_only_blank d ([?E] @ snd (uninstall_attributes e d p True did (h @ [?E])))"
        by (rule dob_prefix) (simp_all add: dob_attributes)
      with Some \<open>removal_outcome ?r = Some did\<close> show ?thesis by (simp add: remove_driver_run Let_def)
    next
      case None
      obtain r2 ev2 where f: "findGitAttributes e d (GivenConfig cfg) (h @ [?E]) = (r2, ev2)"
        by (cases "findGitAttributes e d (GivenConfig cfg) (h @ [?E])")
      then have ex: "list_all is_exec_event ([?E] @ ev2)"
        using findGitAttributes_events[OF f, of d] list_all_other_exec by auto
      show ?thesis
      proof (cases r2)
        case (Inl err)
        with ex f None \<open>removal_outcome ?r = Some did\<close> show ?thesis
          using dob_exec[OF ex, of d] by (simp add: remove_driver_run Let_def)
      next
        case (Inr ps)
        obtain p s where ps: "ps = (p, s)" by (cases ps)
        have "deletes_only_blank d (([?E] @ ev2) @ snd (uninstall_attributes e d p False did (h @ ?E # ev2)))"
          using ex by (rule dob_prefix) (rule dob_attributes)
        with Inr ps f None \<open>removal_outcome ?r = Some did\<close> show ?thesis
          by (simp add: remove_driver_run Let_def)
      qed
    qed
  qed
qed

lemma dob_uninstall: "deletes_only_blank d (snd (uninstall e d local h))"
proof -
  obtain r0 ev0 where f: "findInstalled e d local h = (r0, ev0)"
    by (cases "findInstalled e d local h")
  then have ex: "list_all is_exec_event ev0"
    using findInstalled_events[OF f, of d] list_all_other_exec by auto
  show ?thesis
  proof (cases r0)
    case (Inl err)
    with f ex show ?thesis by (simp add: uninstall_run dob_exec)
  next
    case (Inr x)
    obtain ds created cfg where x: "x = (ds, created, cfg)" by (cases x)
    show ?thesis
    proof (cases ds)
      case None
      with f ex Inr x show ?thesis by (simp add: uninstall_run dob_exec)
    next
      case (Some src)
      have "deletes_only_blank d (ev0 @ snd (remove_driver e d src created cfg (h @ ev0)))"
        using ex by (rule dob_prefix) (rule dob_remove_driver)
      with f Inr x Some show ?thesis by (simp add: uninstall_run)
    qed
  qed
qed

lemma acted_other_prefix:
  assumes "list_all (other_command d) pre"
  shows "acted d (pre @ evs) = acted d evs"
proof -
  have "\<And>src out. EvExec (remove_section_cmd src d) None (ExecOk out) \<notin> set pre"
  proof
    fix src out assume "EvExec (remove_section_cmd src d) None (ExecOk out) \<in> set pre"
    with assms have "other_command d (EvExec (remove_section_cmd src d) None (ExecOk out))"
      unfolding list_all_iff by blast
    then show False by auto
  qed
  moreover have "\<And>p c. EvWriteFile p c (FsOk ()) \<notin> set pre" "\<And>p. EvUnlink p (FsOk ()) \<notin> set pre"
    using assms by (auto simp: list_all_iff)
  ultimately show ?thesis by (auto simp: acted_def)
qed

lemma acted_other: "list_all (other_command d) pre \<Longrightarrow> \<not> acted d pre"
  using acted_other_prefix[of d pre "[]"] by (simp add: acted_def)

lemma acted_removal:
  "acted d (EvExec (remove_section_cmd src d) None r # evs) = ((\<exists>out. r = ExecOk out) \<or> acted d evs)"
  by (auto simp: acted_def)

lemma removal_outcome_Some: "removal_outcome r = Some did \<Longrightarrow> did = (\<exists>out. r = ExecOk out)"
  by (auto simp: removal_outcome_def split: exec_result.splits if_splits)

lemma acted_attributes:
  "fst (uninstall_attributes e d p sd did h) = Inr b \<Longrightarrow>
     b = (did \<or> acted d (snd (uninstall_attributes e d p sd did h)))"
  by (auto simp: uninstall_attributes_run acted_def split: fs_result.splits if_splits)

lemma acted_remove_driver:
  assumes "fst (remove_driver e d src created cfg h) = Inr b"
  shows "b = acted d (snd (remove_driver e d src created cfg h))"
proof -
  let ?r = "exec e h (remove_section_cmd src d) None"
  let ?E = "EvExec (remove_section_cmd src d) None ?r"
  show ?thesis
  proof (cases "removal_outcome ?r")
    case None
    with assms show ?thesis by (simp add: remove_driver_run Let_def)
  next
    case (Some did)
    note did = removal_outcome_Some[OF Some]
    show ?thesis
    proof (cases created)
      case (Some p)
      with assms \<open>removal_outcome ?r = Some did\<close>
      have "fst (uninstall_attributes e d p True did (h @ [?E])) = Inr b"
        by (simp add: remove_driver_run Let_def)
      from acted_attributes[OF this] did Some \<open>removal_outcome ?r = Some did\<close>
      show ?thesis by (simp add: remove_driver_run Let_def acted_removal)
    next
      case None
      obtain r2 ev2 where f: "findGitAttributes e d (GivenConfig cfg) (h @ [?E]) = (r2, ev2)"
        by (cases "findGitAttributes e d (GivenConfig cfg) (h @ [?E])")
      have o: "list_all (other_command d) ev2" using f by (rule findGitAttributes_events)
      show ?thesis
      proof (cases r2)
        case (Inl err)
        with assms f None \<open>removal_outcome ?r = Some did\<close> show ?thesis
          by (simp add: remove_driver_run Let_def)
      next
        case (Inr ps)
        obtain p s where ps: "ps = (p, s)" by (cases ps)
        with assms f None Inr \<open>removal_outcome ?r = Some did\<close>
        have "fst (uninstall_attributes e d p False did (h @ ?E # ev2)) = Inr b"
          by (simp add: remove_driver_run Let_def)
        from acted_attributes[OF this] did f None Inr ps \<open>removal_outcome ?r = Some did\<close>
        show ?thesis
          by (simp add: remove_driver_run Let_def acted_removal acted_other_prefix[OF o])
      qed
    qed
  qed
qed

lemma acted_uninstall:
  assumes "fst (uninstall e d local h) = Inr b"
  shows "b = acted d (snd (uninstall e d local h))"
proof -
  obtain r0 ev0 where f: "findInstalled e d local h = (r0, ev0)"
    by (cases "findInstalled e d local h")
  have o: "list_all (other_command d) ev0" using f by (rule findInstalled_events)
  show ?thesis
  proof (cases r0)
    case (Inl err)
    with f assms show ?thesis by (simp add: uninstall_run)
  next
    case (Inr x)
    obtain ds created cfg where x: "x = (ds, created, cfg)" by (cases x)
    show ?thesis
    proof (cases ds)
      case None
      with f assms Inr x show ?thesis by (simp add: uninstall_run acted_other[OF o])
    next
      case (Some src)
      with f assms Inr x have "fst (remove_driver e d src created cfg (h @ ev0)) = Inr b"
        by (simp add: uninstall_run)
      from acted_remove_driver[OF this] f Inr x Some show ?thesis
        by (simp add: uninstall_run acted_other_prefix[OF o])
    qed
  qed
qed

lemma findInstalled_run:
  "findInstalled e d local h =
     (case exec e h (list_cmd local) None of
        ExecFail msg \<Rightarrow> (Inl (GitConfigError msg), [EvExec (list_cmd local) None (ExecFail msg)])
      | ExecOk out \<Rightarrow>
          (Inr (case parse_config out (driver_key d) of
                  None \<Rightarrow> (None, None, parse_config out)
                | Some entry \<Rightarrow>
                    if cfg_filepath entry \<noteq> [] then
                      (Some (cfg_filepath entry),
                       (case parse_config out (created_key d) of
                          None \<Rightarrow> None
                        | Some c \<Rightarrow> if cfg_value c \<noteq> [] then Some (cfg_value c) else None),
                       parse_config out)
                    else (None, None, parse_config out)),
           [EvExec (list_cmd local) None (ExecOk out)]))"
  by (simp add: findInstalled_def getGitConfigWithOrigins_run andThen_run ret_run
           split: exec_result.splits option.splits)

lemma parse_listing_created:
  "parse_config listing_created (driver_key (str ''d'')) = Some \<lparr>cfg_filepath = str ''/g'', cfg_value = str ''x''\<rparr>"
  "parse_config listing_created (created_key (str ''d'')) = Some \<lparr>cfg_filepath = str ''/g'', cfg_value = str ''/a''\<rparr>"
  by (simp_all add: listing_created_def driver_key_def created_key_def parse_defs)

lemma parse_listing_driver:
  "parse_config listing_driver (driver_key (str ''d'')) = Some \<lparr>cfg_filepath = str ''/g'', cfg_value = str ''x''\<rparr>"
  "parse_config listing_driver (created_key (str ''d'')) = None"
  "parse_config listing_driver (str ''core.attributesfile'') = Some \<lparr>cfg_filepath = str ''/g'', cfg_value = str ''/a''\<rparr>"
  by (simp_all add: listing_driver_def driver_key_def created_key_def parse_defs)

lemmas attrs_defs = newAttrs_def keeps_def merge_attr_at_def upper_def js_trim_def str_def is_ws_def is_lt_def LF_def CR_def

lemma newAttrs_user_and_driver:
  "newAttrs (str ''d'') (js_split LF (str ''*.txt text'' @ [LF] @ str ''package-lock.json merge=d'' @ [LF]))
     = str ''*.txt text'' @ [LF, LF]"
  by (simp add: attrs_defs)

lemma newAttrs_user_only:
  "newAttrs (str ''d'') (js_split LF (str ''*.txt text'' @ [LF])) = str ''*.txt text'' @ [LF, LF]"
  by (simp add: attrs_defs)

lemma keeps_user_only:
  "list_all (keeps (str ''d'')) (js_split LF (str ''*.txt text'' @ [LF]))"
  by (simp add: attrs_defs)

lemma no_such_section_msg: "no_such_section (str ''fatal: no such section: merge.d'')"
  by (simp add: no_such_section_def upper_def str_def)

lemma trim_kept: "js_trim (str ''*.txt text'' @ [LF, LF]) \<noteq> []"
  by (simp add: js_trim_def str_def is_ws_def LF_def)

lemma expand_tilde_a: "expand_tilde home (str ''/a'') = str ''/a''"
  by (simp add: expand_tilde_def strip_prefix_def str_def is_ws_def)

lemma uninstall_created_env:
  "uninstall created_env (str ''d'') False []
     = (Inr True,
        [EvExec (list_cmd False) None (ExecOk listing_created),
         EvExec (remove_section_cmd (str ''/g'') (str ''d'')) None (ExecOk []),
         EvReadFile (str ''/a'') (FsOk tracked_file),
         EvWriteFile (str ''/a'') (str ''*.txt text'' @ [LF, LF]) (FsOk ())])"
proof -
  have x: "\<And>h. exec created_env h (list_cmd False) None = ExecOk listing_created"
    "\<And>h s. exec created_env h (remove_section_cmd s (str ''d'')) None = ExecOk []"
    "\<And>h p. readFile created_env h p = FsOk tracked_file"
    "\<And>h p c. writeFile created_env h p c = FsOk ()"
    by (simp_all add: created_env_def listing_env_def quiet_env_def remove_section_not_list[symmetric])
  have g: "str ''/g'' \<noteq> []" "str ''/a'' \<noteq> []" by (simp_all add: str_def)
  have n: "newAttrs (str ''d'') (js_split LF tracked_file) = str ''*.txt text'' @ [LF, LF]"
    using newAttrs_user_and_driver by (simp add: tracked_file_def)
  show ?thesis
    using trim_kept
    by (simp add: uninstall_run findInstalled_run remove_driver_run uninstall_attributes_run Let_def
          removal_outcome_def x g n parse_listing_created)
qed

lemma uninstall_no_section_env:
  "uninstall no_section_env (str ''d'') False []
     = (Inr True,
        [EvExec (list_cmd False) None (ExecOk listing_driver),
         EvExec (remove_section_cmd (str ''/g'') (str ''d'')) None
           (ExecFail (str ''fatal: no such section: merge.d'')),
         EvReadFile (str ''/a'') (FsOk user_file),
         EvWriteFile (str ''/a'') (str ''*.txt text'' @ [LF, LF]) (FsOk ())])"
proof -
  have x: "\<And>h. exec no_section_env h (list_cmd False) None = ExecOk listing_driver"
    "\<And>h s. exec no_section_env h (remove_section_cmd s (str ''d'')) None
        = ExecFail (str ''fatal: no such section: merge.d'')"
    "\<And>h p. readFile no_section_env h p = FsOk user_file"
    "\<And>h p c. writeFile no_section_env h p c = FsOk ()"
    "homedir no_section_env = str ''/h''"
    by (simp_all add: no_section_env_def quiet_env_def remove_section_not_list[symmetric])
  have g: "str ''/g'' \<noteq> []" "str ''/a'' \<noteq> []" by (simp_all add: str_def)
  have n: "newAttrs (str ''d'') (js_split LF user_file) = str ''*.txt text'' @ [LF, LF]"
    using newAttrs_user_only by (simp add: user_file_def)
  have f: "\<And>h. findGitAttributes no_section_env (str ''d'') (GivenConfig (parse_config listing_driver)) h
      = (Inr (str ''/a'', str ''/g''), [])"
    by (simp add: findGitAttributes_def Let_def getAttributesFilepathFromConfig_def parse_listing_driver
          run_simps g x expand_tilde_a)
  show ?thesis
    using trim_kept no_such_section_msg
    by (simp add: uninstall_run findInstalled_run remove_driver_run uninstall_attributes_run Let_def
          removal_outcome_def x g n f parse_listing_driver)
qed

lemma newAttrs_foldl:
  "foldl (\<lambda>acc attr. if keeps d attr then acc @ attr @ [LF] else acc) acc ls
     = acc @ concat (map (\<lambda>a. a @ [LF]) (filter (keeps d) ls))"
  by (induction ls arbitrary: acc) auto

lemma newAttrs_concat: "newAttrs d ls = concat (map (\<lambda>a. a @ [LF]) (filter (keeps d) ls))"
  by (simp add: newAttrs_def newAttrs_foldl)

lemma js_trim_blank: "js_trim s = [] \<longleftrightarrow> (\<forall>c\<in>set s. is_ws c)"
proof
  assume "js_trim s = []"
  then have "dropWhile is_ws (rev (dropWhile is_ws s)) = []" by (simp add: js_trim_def)
  then have a: "\<forall>c\<in>set (dropWhile is_ws s). is_ws c" by (simp add: dropWhile_eq_Nil_conv)
  have "dropWhile is_ws s = []"
  proof (rule ccontr)
    assume n: "dropWhile is_ws s \<noteq> []"
    then have "\<not> is_ws (hd (dropWhile is_ws s))" by (rule hd_dropWhile)
    moreover have "hd (dropWhile is_ws s) \<in> set (dropWhile is_ws s)" using n by simp
    ultimately show False using a by blast
  qed
  then show "\<forall>c\<in>set s. is_ws c" by (simp add: dropWhile_eq_Nil_conv)
next
  assume "\<forall>c\<in>set s. is_ws c"
  then have d: "dropWhile is_ws s = []" by (simp add: dropWhile_eq_Nil_conv)
  show "js_trim s = []" by (simp only: js_trim_def d dropWhile.simps rev.simps)
qed

lemma kept_line_not_blank:
  assumes "l \<in> set ls" "keeps d l" "js_trim l \<noteq> []"
  shows "js_trim (newAttrs d ls) \<noteq> []"
proof -
  from assms(3) obtain c where c: "c \<in> set l" "\<not> is_ws c" by (auto simp: js_trim_blank)
  have "l \<in> set (filter (keeps d) ls)" using assms(1,2) by simp
  then have "c \<in> set (newAttrs d ls)" using c(1) by (auto simp: newAttrs_concat)
  with c(2) show ?thesis by (auto simp: js_trim_blank)
qed

lemma keeps_without_merge: "regex_search merge_attr_at l = None \<Longrightarrow> keeps d l"
  by (simp add: keeps_def)

text \<open>
  C2. Whatever the environment answers and whether or not the \<^verbatim>\<open>created\<close> key is set: when
  \<open>uninstall\<close> reads an attributes file whose filtered content (the lines the \<^verbatim>\<open>reduce\<close>
  keeps, each with a line feed) is not blank, it deletes no file and writes the filtered
  content back to that file; a file is deleted only after a read of it whose filtered
  content is blank. The same holds of the last stage for either value of the flag. The
  filtered content is not blank as soon as the file has a line that is not blank and that
  is kept, as every line without a \<^verbatim>\<open>merge=\<close> attribute is: a file with such a line is
  never deleted.
\<close>

theorem uninstall_never_deletes_nonblank:
  "(\<forall>p content. EvReadFile p (FsOk content) \<in> set (snd (uninstall e d local h))
        \<and> js_trim (newAttrs d (js_split LF content)) \<noteq> [] \<longrightarrow>
        (\<forall>q u. EvUnlink q u \<notin> set (snd (uninstall e d local h)))
        \<and> (\<exists>w. EvWriteFile p (newAttrs d (js_split LF content)) w \<in> set (snd (uninstall e d local h))))
   \<and> (\<forall>p u. EvUnlink p u \<in> set (snd (uninstall e d local h)) \<longrightarrow>
        (\<exists>content. EvReadFile p (FsOk content) \<in> set (snd (uninstall e d local h))
            \<and> js_trim (newAttrs d (js_split LF content)) = []))
   \<and> (\<forall>p sd did content. readFile e h p = FsOk content \<and> js_trim (newAttrs d (js_split LF content)) \<noteq> [] \<longrightarrow>
        snd (uninstall_attributes e d p sd did h)
          = [EvReadFile p (FsOk content),
             EvWriteFile p (newAttrs d (js_split LF content))
               (writeFile e (h @ [EvReadFile p (FsOk content)]) p (newAttrs d (js_split LF content)))])
   \<and> (\<forall>content l. l \<in> set (js_split LF content) \<and> js_trim l \<noteq> []
          \<and> (regex_search merge_attr_at l = None \<or> keeps d l) \<longrightarrow>
        js_trim (newAttrs d (js_split LF content)) \<noteq> [])
   \<and> (\<forall>p content l. EvReadFile p (FsOk content) \<in> set (snd (uninstall e d local h))
          \<and> l \<in> set (js_split LF content) \<and> js_trim l \<noteq> [] \<and> regex_search merge_attr_at l = None \<longrightarrow>
        (\<forall>q u. EvUnlink q u \<notin> set (snd (uninstall e d local h))))"
proof -
  have "deletes_only_blank d (snd (uninstall e d local h))" by (rule dob_uninstall)
  then have 1: "(\<forall>p content. EvReadFile p (FsOk content) \<in> set (snd (uninstall e d local h))
        \<and> js_trim (newAttrs d (js_split LF content)) \<noteq> [] \<longrightarrow>
        (\<forall>q u. EvUnlink q u \<notin> set (snd (uninstall e d local h)))
        \<and> (\<exists>w. EvWriteFile p (newAttrs d (js_split LF content)) w \<in> set (snd (uninstall e d local h))))
   \<and> (\<forall>p u. EvUnlink p u \<in> set (snd (uninstall e d local h)) \<longrightarrow>
        (\<exists>content. EvReadFile p (FsOk content) \<in> set (snd (uninstall e d local h))
            \<and> js_trim (newAttrs d (js_split LF content)) = []))"
    unfolding deletes_only_blank_def by blast
  have 2: "\<forall>p sd did content. readFile e h p = FsOk content \<and> js_trim (newAttrs d (js_split LF content)) \<noteq> [] \<longrightarrow>
        snd (uninstall_attributes e d p sd did h)
          = [EvReadFile p (FsOk content),
             EvWriteFile p (newAttrs d (js_split LF content))
               (writeFile e (h @ [EvReadFile p (FsOk content)]) p (newAttrs d (js_split LF content)))]"
    by (auto simp: uninstall_attributes_run)
  have 3: "\<forall>content l. l \<in> set (js_split LF content) \<and> js_trim l \<noteq> []
          \<and> (regex_search merge_attr_at l = None \<or> keeps d l) \<longrightarrow>
        js_trim (newAttrs d (js_split LF content)) \<noteq> []"
    using kept_line_not_blank keeps_without_merge by blast
  have 4: "\<forall>p content l. EvReadFile p (FsOk content) \<in> set (snd (uninstall e d local h))
          \<and> l \<in> set (js_split LF content) \<and> js_trim l \<noteq> [] \<and> regex_search merge_attr_at l = None \<longrightarrow>
        (\<forall>q u. EvUnlink q u \<notin> set (snd (uninstall e d local h)))"
  proof (intro allI impI)
    fix p content l q u
    assume a: "EvReadFile p (FsOk content) \<in> set (snd (uninstall e d local h))
          \<and> l \<in> set (js_split LF content) \<and> js_trim l \<noteq> [] \<and> regex_search merge_attr_at l = None"
    then have "js_trim (newAttrs d (js_split LF content)) \<noteq> []" using 3 by blast
    with a 1 show "EvUnlink q u \<notin> set (snd (uninstall e d local h))" by blast
  qed
  from 1 2 3 4 show ?thesis by blast
qed

theorem uninstall_never_deletes_nonblank_witness:
  "EvReadFile (str ''/a'') (FsOk tracked_file) \<in> set (snd (uninstall created_env (str ''d'') False []))
   \<and> js_trim (newAttrs (str ''d'') (js_split LF tracked_file)) \<noteq> []
   \<and> EvUnlink (str ''/a'') (FsOk ()) \<notin> set (snd (uninstall created_env (str ''d'') False []))
   \<and> parse_config listing_created (created_key (str ''d''))
       = Some \<lparr>cfg_filepath = str ''/g'', cfg_value = str ''/a''\<rparr>"
proof -
  have r: "EvReadFile (str ''/a'') (FsOk tracked_file) \<in> set (snd (uninstall created_env (str ''d'') False []))"
    by (simp add: uninstall_created_env)
  have t: "js_trim (newAttrs (str ''d'') (js_split LF tracked_file)) \<noteq> []"
    using newAttrs_user_and_driver trim_kept by (simp add: tracked_file_def)
  from uninstall_never_deletes_nonblank[of created_env "str ''d''" False "[]", THEN conjunct1,
         rule_format, of "str ''/a''" tracked_file] r t
  have "\<forall>q u. EvUnlink q u \<notin> set (snd (uninstall created_env (str ''d'') False []))" by blast
  then have "EvUnlink (str ''/a'') (FsOk ()) \<notin> set (snd (uninstall created_env (str ''d'') False []))"
    by blast
  with r t parse_listing_created(2) show ?thesis by blast
qed

text \<open>
  C5, as stated, fails where the removal of the section reports \<^verbatim>\<open>no such section\<close> and the
  attributes file holds no association: every line of the file is kept, the file is
  written back, and \<open>uninstall\<close> returns true although nothing was removed.
\<close>

theorem uninstall_true_without_removal:
  "uninstall no_section_env (str ''d'') False []
     = (Inr True,
        [EvExec (list_cmd False) None (ExecOk listing_driver),
         EvExec (remove_section_cmd (str ''/g'') (str ''d'')) None
           (ExecFail (str ''fatal: no such section: merge.d'')),
         EvReadFile (str ''/a'') (FsOk user_file),
         EvWriteFile (str ''/a'') (str ''*.txt text'' @ [LF, LF]) (FsOk ())])
   \<and> list_all (keeps (str ''d'')) (js_split LF user_file)"
  using uninstall_no_section_env keeps_user_only by (simp add: user_file_def)

text \<open>
  C5, amended. When \<open>uninstall\<close> returns, it returns true exactly when the removal of the
  section succeeded, or the attributes file was written back, or it was deleted. When the
  listing of the configuration has no \<^verbatim>\<open>merge.<name>.driver\<close>, it returns false and the
  listing is the only call it makes.
\<close>

theorem uninstall_reports_what_it_did:
  "(\<forall>b. fst (uninstall e d local h) = Inr b \<longrightarrow>
        (b \<longleftrightarrow> (\<exists>src out. EvExec (remove_section_cmd src d) None (ExecOk out) \<in> set (snd (uninstall e d local h)))
             \<or> (\<exists>p c. EvWriteFile p c (FsOk ()) \<in> set (snd (uninstall e d local h)))
             \<or> (\<exists>p. EvUnlink p (FsOk ()) \<in> set (snd (uninstall e d local h)))))
   \<and> (\<forall>out. exec e h (list_cmd local) None = ExecOk out
          \<and> (case parse_config out (driver_key d) of None \<Rightarrow> True | Some entry \<Rightarrow> cfg_filepath entry = []) \<longrightarrow>
        uninstall e d local h = (Inr False, [EvExec (list_cmd local) None (ExecOk out)]))"
proof (intro conjI allI impI)
  fix b assume "fst (uninstall e d local h) = Inr b"
  from acted_uninstall[OF this]
  show "b \<longleftrightarrow> (\<exists>src out. EvExec (remove_section_cmd src d) None (ExecOk out) \<in> set (snd (uninstall e d local h)))
             \<or> (\<exists>p c. EvWriteFile p c (FsOk ()) \<in> set (snd (uninstall e d local h)))
             \<or> (\<exists>p. EvUnlink p (FsOk ()) \<in> set (snd (uninstall e d local h)))"
    by (simp add: acted_def)
next
  fix out
  assume "exec e h (list_cmd local) None = ExecOk out
          \<and> (case parse_config out (driver_key d) of None \<Rightarrow> True | Some entry \<Rightarrow> cfg_filepath entry = [])"
  then show "uninstall e d local h = (Inr False, [EvExec (list_cmd local) None (ExecOk out)])"
    by (auto simp: uninstall_run findInstalled_run split: option.splits)
qed

theorem uninstall_reports_what_it_did_witness:
  "uninstall quiet_env (str ''d'') False [] = (Inr False, [EvExec (list_cmd False) None (ExecOk [])])
   \<and> fst (uninstall created_env (str ''d'') False []) = Inr True
   \<and> EvExec (remove_section_cmd (str ''/g'') (str ''d'')) None (ExecOk [])
       \<in> set (snd (uninstall created_env (str ''d'') False []))"
proof -
  have x: "exec quiet_env [] (list_cmd False) None = ExecOk []
      \<and> (case parse_config [] (driver_key (str ''d'')) of None \<Rightarrow> True | Some entry \<Rightarrow> cfg_filepath entry = [])"
    by (simp add: quiet_env_def parse_empty)
  from uninstall_reports_what_it_did[of quiet_env "str ''d''" False "[]", THEN conjunct2, rule_format, OF x]
  have 1: "uninstall quiet_env (str ''d'') False [] = (Inr False, [EvExec (list_cmd False) None (ExecOk [])])" .
  show ?thesis using 1 by (simp add: uninstall_created_env)
qed

subsection \<open>Installing beside a file that exists\<close>

lemma parse_listing_after:
  "parse_config listing_after (str ''core.attributesfile'')
     = Some \<lparr>cfg_filepath = str ''/h/.gitconfig'', cfg_value = ATTRIBUTES\<rparr>"
  by (simp add: listing_after_def ATTRIBUTES_def parse_defs)

lemma name_driver_cmd_not_list:
  "set_name_cmd (scope_flag local) d \<noteq> list_cmd local'"
  "set_driver_cmd (scope_flag local) d c \<noteq> list_cmd local'"
  by (cases local; cases local'; simp add: set_name_cmd_def set_driver_cmd_def list_cmd_def scope_flag_def str_def)+

lemma preexisting_exec:
  "exec preexisting_env [] (list_cmd False) None = ExecOk []"
  "h \<noteq> [] \<Longrightarrow> exec preexisting_env h (list_cmd False) None = ExecOk listing_after"
  "exec preexisting_env h (set_attributesfile_cmd False f) None = ExecOk []"
  "exec preexisting_env h (set_created_cmd False d s) None = ExecOk []"
  "exec preexisting_env h (set_name_cmd (scope_flag False) d) None = ExecOk []"
  "exec preexisting_env h (set_driver_cmd (scope_flag False) d c) None = ExecOk []"
  by (simp_all add: preexisting_env_def attributesfile_cmd_not_list created_cmd_distinct name_driver_cmd_not_list)

lemma preexisting_paths:
  "pathJoin preexisting_env [homedir preexisting_env, str ''.config'', str ''git'', str ''attributes''] = ATTRIBUTES"
  "pathDirname preexisting_env ATTRIBUTES = str ''/h/.config/git''"
  "XDG_CONFIG_HOME preexisting_env = None"
  "expand_tilde (homedir preexisting_env) ATTRIBUTES = ATTRIBUTES"
  by (simp_all add: preexisting_env_def quiet_env_def ATTRIBUTES_def posix_dirname_def expand_tilde_def
        strip_prefix_def str_def is_ws_def)

lemma attributes_nonempty: "ATTRIBUTES \<noteq> []" "str ''/h/.gitconfig'' \<noteq> []"
  by (simp_all add: ATTRIBUTES_def str_def)

lemma findGitAttributes_preexisting:
  "findGitAttributes preexisting_env (str ''d'') (GivenLocal False) []
     = (Inr (ATTRIBUTES, str ''/h/.gitconfig''),
        [EvExec (list_cmd False) None (ExecOk []),
         EvExec (set_attributesfile_cmd False ATTRIBUTES) None (ExecOk []),
         EvExec (list_cmd False) None (ExecOk listing_after),
         EvExec (set_created_cmd False (str ''d'') (str ''/h/.gitconfig'')) None (ExecOk [])])"
  by (simp add: findGitAttributes_def fallback_global_def Let_def getGitConfigWithOrigins_run
        setAttributesFilepath_run confirms_def getAttributesFilepathFromConfig_def
        andThen_run ret_run throw_run preexisting_exec preexisting_paths parse_listing_after parse_empty
        attributes_nonempty)

lemma written_user_file:
  "written_contents (str ''d'') (Some user_file) = str ''*.txt text'' @ [LF] @ str ''package-lock.json merge=d'' @ [LF]"
  using written_terminated by (simp add: user_file_def)

lemma updateGitAttributes_preexisting:
  "updateGitAttributes preexisting_env ATTRIBUTES (str ''d'') h
     = (Inr (), [EvReadFile ATTRIBUTES (FsOk user_file),
                 EvWriteFile ATTRIBUTES (str ''*.txt text'' @ [LF] @ str ''package-lock.json merge=d'' @ [LF]) (FsOk ())])"
  by (simp add: updateGitAttributes_def run_simps preexisting_env_def quiet_env_def written_user_file)

text \<open>
  C1. The attributes file \<^verbatim>\<open>/h/.config/git/attributes\<close> exists and holds a line of the
  user's; the global configuration has no \<^verbatim>\<open>core.attributesfile\<close>. \<open>install\<close> sets
  \<^verbatim>\<open>merge.d.created\<close> (to the configuration file the path was written to), then reads the
  file that existed and writes it back with the association line appended.
\<close>

theorem install_marks_preexisting_file_as_created:
  "install preexisting_env (str ''d'') None False []
     = (Inr (ATTRIBUTES, str ''/h/.gitconfig''),
        [EvExec (list_cmd False) None (ExecOk []),
         EvExec (set_attributesfile_cmd False ATTRIBUTES) None (ExecOk []),
         EvExec (list_cmd False) None (ExecOk listing_after),
         EvExec (set_created_cmd False (str ''d'') (str ''/h/.gitconfig'')) None (ExecOk []),
         EvExec (set_name_cmd (scope_flag False) (str ''d'')) None (ExecOk []),
         EvExec (set_driver_cmd (scope_flag False) (str ''d'')
                   (str ''npx package-lock-merge-driver merge %A %O %B %P'')) None (ExecOk []),
         EvMkdir (str ''/h/.config/git'') (FsOk ()),
         EvReadFile ATTRIBUTES (FsOk user_file),
         EvWriteFile ATTRIBUTES (str ''*.txt text'' @ [LF] @ str ''package-lock.json merge=d'' @ [LF]) (FsOk ())])"
proof -
  have m: "\<And>h p. mkdir preexisting_env h p = FsOk ()"
    by (simp add: preexisting_env_def quiet_env_def)
  show ?thesis
    by (simp add: install_def Let_def findGitAttributes_preexisting updateGitAttributes_preexisting
          andThen_run ret_run throw_run attempt_run mkdir_p_run exec_or_throw_run preexisting_exec
          preexisting_paths m first_error_def)
qed

subsection \<open>The search for the lockfile\<close>

lemma findLockfile_unfold:
  "findLockfile e d h =
     (if access e h (d @ [LOCKFILE]) then (Inr (d @ [LOCKFILE]), [EvAccess (d @ [LOCKFILE]) True])
      else if d = [] then (Inl NoLockfileFound, [EvAccess (d @ [LOCKFILE]) False])
      else (case findLockfile e (butlast d) (h @ [EvAccess (d @ [LOCKFILE]) False]) of
              (r, ev) \<Rightarrow> (r, EvAccess (d @ [LOCKFILE]) False # ev)))"
proof -
  have "(butlast d = d) = (d = [])"
    by (cases d rule: rev_cases) auto
  then show ?thesis
    by (subst findLockfile.simps) simp
qed

lemma findLockfile_root:
  "findLockfile e [] h =
     (if access e h [LOCKFILE] then (Inr [LOCKFILE], [EvAccess [LOCKFILE] True])
      else (Inl NoLockfileFound, [EvAccess [LOCKFILE] False]))"
  by (subst findLockfile_unfold) simp

lemma findLockfile_snoc:
  "findLockfile e (d @ [x]) h =
     (if access e h (d @ [x, LOCKFILE]) then (Inr (d @ [x, LOCKFILE]), [EvAccess (d @ [x, LOCKFILE]) True])
      else (case findLockfile e d (h @ [EvAccess (d @ [x, LOCKFILE]) False]) of
              (r, ev) \<Rightarrow> (r, EvAccess (d @ [x, LOCKFILE]) False # ev)))"
  by (subst findLockfile_unfold) simp

lemma fst_findLockfile_snoc:
  "fst (findLockfile e (d @ [x]) h) =
     (if access e h (d @ [x, LOCKFILE]) then Inr (d @ [x, LOCKFILE])
      else fst (findLockfile e d (h @ [EvAccess (d @ [x, LOCKFILE]) False])))"
  by (simp add: findLockfile_snoc split: prod.splits)

lemma snd_findLockfile_snoc:
  "snd (findLockfile e (d @ [x]) h) =
     (if access e h (d @ [x, LOCKFILE]) then [EvAccess (d @ [x, LOCKFILE]) True]
      else EvAccess (d @ [x, LOCKFILE]) False # snd (findLockfile e d (h @ [EvAccess (d @ [x, LOCKFILE]) False])))"
  by (simp add: findLockfile_snoc split: prod.splits)

lemma findLockfile_found:
  assumes st: "\<forall>h p. access e h p = ex p"
  shows "fst (findLockfile e d h) = Inr p \<longleftrightarrow>
      (\<exists>k\<le>length d. p = take k d @ [LOCKFILE] \<and> ex p \<and>
           (\<forall>j. k < j \<and> j \<le> length d \<longrightarrow> \<not> ex (take j d @ [LOCKFILE])))"
proof (induction d arbitrary: h rule: rev_induct)
  case Nil
  show ?case using st by (auto simp: findLockfile_root)
next
  case (snoc x d)
  show ?case
  proof (cases "ex (d @ [x, LOCKFILE])")
    case True
    have "fst (findLockfile e (d @ [x]) h) = Inr (d @ [x, LOCKFILE])"
      using True st by (simp add: fst_findLockfile_snoc)
    moreover have "(\<exists>k\<le>length (d @ [x]). p = take k (d @ [x]) @ [LOCKFILE] \<and> ex p \<and>
           (\<forall>j. k < j \<and> j \<le> length (d @ [x]) \<longrightarrow> \<not> ex (take j (d @ [x]) @ [LOCKFILE])))
        \<longleftrightarrow> p = d @ [x, LOCKFILE]" (is "?R \<longleftrightarrow> _")
    proof
      assume ?R
      then obtain k where k: "k \<le> length (d @ [x])" "p = take k (d @ [x]) @ [LOCKFILE]"
        "\<forall>j. k < j \<and> j \<le> length (d @ [x]) \<longrightarrow> \<not> ex (take j (d @ [x]) @ [LOCKFILE])" by blast
      have "\<not> k < length (d @ [x])"
      proof
        assume "k < length (d @ [x])"
        with k(3) have "\<not> ex (take (length (d @ [x])) (d @ [x]) @ [LOCKFILE])" by blast
        with True show False by simp
      qed
      with k(1) have "k = length (d @ [x])" by simp
      with k(2) show "p = d @ [x, LOCKFILE]" by simp
    next
      assume p: "p = d @ [x, LOCKFILE]"
      show ?R
        by (rule exI[of _ "length (d @ [x])"]) (use p True in auto)
    qed
    ultimately show ?thesis by auto
  next
    case False
    have eq: "fst (findLockfile e (d @ [x]) h) = fst (findLockfile e d (h @ [EvAccess (d @ [x, LOCKFILE]) False]))"
      using False st by (simp add: fst_findLockfile_snoc)
    have "(\<exists>k\<le>length (d @ [x]). p = take k (d @ [x]) @ [LOCKFILE] \<and> ex p \<and>
           (\<forall>j. k < j \<and> j \<le> length (d @ [x]) \<longrightarrow> \<not> ex (take j (d @ [x]) @ [LOCKFILE])))
        \<longleftrightarrow> (\<exists>k\<le>length d. p = take k d @ [LOCKFILE] \<and> ex p \<and>
           (\<forall>j. k < j \<and> j \<le> length d \<longrightarrow> \<not> ex (take j d @ [LOCKFILE])))" (is "?L \<longleftrightarrow> ?R")
    proof
      assume ?L
      then obtain k where k: "k \<le> length (d @ [x])" "p = take k (d @ [x]) @ [LOCKFILE]" "ex p"
        "\<forall>j. k < j \<and> j \<le> length (d @ [x]) \<longrightarrow> \<not> ex (take j (d @ [x]) @ [LOCKFILE])" by blast
      have "k \<noteq> length (d @ [x])" using k(2,3) False by auto
      with k(1) have kd: "k \<le> length d" by simp
      have "\<forall>j. k < j \<and> j \<le> length d \<longrightarrow> \<not> ex (take j d @ [LOCKFILE])"
      proof (intro allI impI)
        fix j assume j: "k < j \<and> j \<le> length d"
        then have "k < j \<and> j \<le> length (d @ [x])" by simp
        with k(4) have "\<not> ex (take j (d @ [x]) @ [LOCKFILE])" by blast
        with j show "\<not> ex (take j d @ [LOCKFILE])" by simp
      qed
      with kd k(2,3) show ?R by auto
    next
      assume ?R
      then obtain k where k: "k \<le> length d" "p = take k d @ [LOCKFILE]" "ex p"
        "\<forall>j. k < j \<and> j \<le> length d \<longrightarrow> \<not> ex (take j d @ [LOCKFILE])" by blast
      have "\<forall>j. k < j \<and> j \<le> length (d @ [x]) \<longrightarrow> \<not> ex (take j (d @ [x]) @ [LOCKFILE])"
      proof (intro allI impI)
        fix j assume j: "k < j \<and> j \<le> length (d @ [x])"
        show "\<not> ex (take j (d @ [x]) @ [LOCKFILE])"
        proof (cases "j \<le> length d")
          case True
          with j k(4) show ?thesis by simp
        next
          case False
          with j have "j = length (d @ [x])" by simp
          with \<open>\<not> ex (d @ [x, LOCKFILE])\<close> show ?thesis by simp
        qed
      qed
      with k(1,2,3) show ?L by (intro exI[of _ k]) simp
    qed
    with eq snoc.IH show ?thesis by simp
  qed
qed

lemma findLockfile_not_found:
  assumes st: "\<forall>h p. access e h p = ex p"
  shows "fst (findLockfile e d h) = Inl err \<longleftrightarrow>
      (err = NoLockfileFound \<and> (\<forall>k\<le>length d. \<not> ex (take k d @ [LOCKFILE])))"
proof (induction d arbitrary: h rule: rev_induct)
  case Nil
  show ?case using st by (cases err) (auto simp: findLockfile_root)
next
  case (snoc x d)
  show ?case
  proof (cases "ex (d @ [x, LOCKFILE])")
    case True
    then have "fst (findLockfile e (d @ [x]) h) = Inr (d @ [x, LOCKFILE])"
      using st by (simp add: fst_findLockfile_snoc)
    moreover have "\<not> (\<forall>k\<le>length (d @ [x]). \<not> ex (take k (d @ [x]) @ [LOCKFILE]))"
      using True by (auto intro!: exI[of _ "length (d @ [x])"])
    ultimately show ?thesis by simp
  next
    case False
    have eq: "fst (findLockfile e (d @ [x]) h) = fst (findLockfile e d (h @ [EvAccess (d @ [x, LOCKFILE]) False]))"
      using False st by (simp add: fst_findLockfile_snoc)
    have "(\<forall>k\<le>length (d @ [x]). \<not> ex (take k (d @ [x]) @ [LOCKFILE]))
        \<longleftrightarrow> (\<forall>k\<le>length d. \<not> ex (take k d @ [LOCKFILE]))" (is "?L \<longleftrightarrow> ?R")
    proof
      assume l: ?L
      show ?R
      proof (intro allI impI)
        fix k assume k: "k \<le> length d"
        then have "k \<le> length (d @ [x])" by simp
        with l have "\<not> ex (take k (d @ [x]) @ [LOCKFILE])" by blast
        with k show "\<not> ex (take k d @ [LOCKFILE])" by simp
      qed
    next
      assume r: ?R
      show ?L
      proof (intro allI impI)
        fix k assume k: "k \<le> length (d @ [x])"
        show "\<not> ex (take k (d @ [x]) @ [LOCKFILE])"
        proof (cases "k \<le> length d")
          case True
          with r show ?thesis by simp
        next
          case False
          with k have "k = length (d @ [x])" by simp
          with \<open>\<not> ex (d @ [x, LOCKFILE])\<close> show ?thesis by simp
        qed
      qed
    qed
    with eq snoc.IH show ?thesis by simp
  qed
qed

lemma findLockfile_probes:
  "length (snd (findLockfile e d h)) \<le> length d + 1"
  by (induction d arbitrary: h rule: rev_induct)
     (auto simp: findLockfile_root snd_findLockfile_snoc split: if_splits)

lemma findLockfile_upward:
  "i < length (snd (findLockfile e d h)) \<Longrightarrow>
     \<exists>b. snd (findLockfile e d h) ! i = EvAccess (take (length d - i) d @ [LOCKFILE]) b"
proof (induction d arbitrary: h i rule: rev_induct)
  case Nil
  then show ?case by (auto simp: findLockfile_root split: if_splits)
next
  case (snoc x d)
  show ?case
  proof (cases i)
    case 0
    then show ?thesis by (auto simp: snd_findLockfile_snoc split: if_splits)
  next
    case (Suc n)
    with snoc.prems snoc.IH[of n] show ?thesis
      by (auto simp: snd_findLockfile_snoc split: if_splits)
  qed
qed

text \<open>
  C10. \<open>findLockfile\<close> is a total function: the search ends for every start directory. It
  probes at most one path per ancestor, the \<open>i\<close>-th probe being \<^verbatim>\<open>package-lock.json\<close> in
  the ancestor \<open>i\<close> levels up; on a file system that does not change during the search it
  returns the lockfile of the nearest ancestor that has one (the start directory
  included), and it throws exactly when no ancestor up to the root has one.
\<close>

theorem findLockfile_nearest_ancestor:
  assumes "\<forall>h p. access e h p = ex p"
  shows "(\<forall>p. fst (findLockfile e d h) = Inr p \<longleftrightarrow>
            (\<exists>k\<le>length d. p = take k d @ [LOCKFILE] \<and> ex p \<and>
               (\<forall>j. k < j \<and> j \<le> length d \<longrightarrow> \<not> ex (take j d @ [LOCKFILE]))))
       \<and> (\<forall>err. fst (findLockfile e d h) = Inl err \<longleftrightarrow>
            (err = NoLockfileFound \<and> (\<forall>k\<le>length d. \<not> ex (take k d @ [LOCKFILE]))))
       \<and> length (snd (findLockfile e d h)) \<le> length d + 1
       \<and> (\<forall>i<length (snd (findLockfile e d h)).
            \<exists>b. snd (findLockfile e d h) ! i = EvAccess (take (length d - i) d @ [LOCKFILE]) b)"
proof (intro conjI allI)
  fix p
  show "fst (findLockfile e d h) = Inr p \<longleftrightarrow>
            (\<exists>k\<le>length d. p = take k d @ [LOCKFILE] \<and> ex p \<and>
               (\<forall>j. k < j \<and> j \<le> length d \<longrightarrow> \<not> ex (take j d @ [LOCKFILE])))"
    by (rule findLockfile_found[OF assms])
next
  fix err
  show "fst (findLockfile e d h) = Inl err \<longleftrightarrow>
            (err = NoLockfileFound \<and> (\<forall>k\<le>length d. \<not> ex (take k d @ [LOCKFILE])))"
    by (rule findLockfile_not_found[OF assms])
next
  show "length (snd (findLockfile e d h)) \<le> length d + 1"
    by (rule findLockfile_probes)
next
  fix i
  show "i < length (snd (findLockfile e d h)) \<longrightarrow>
      (\<exists>b. snd (findLockfile e d h) ! i = EvAccess (take (length d - i) d @ [LOCKFILE]) b)"
    using findLockfile_upward[of i e d h] by blast
qed


theorem findLockfile_nearest_ancestor_witness:
  "fst (findLockfile (quiet_env\<lparr>access := \<lambda>h p. p = [str ''repo'', LOCKFILE]\<rparr>)
          [str ''repo'', str ''packages'', str ''app''] [])
     = Inr [str ''repo'', LOCKFILE]
   \<and> length (snd (findLockfile (quiet_env\<lparr>access := \<lambda>h p. p = [str ''repo'', LOCKFILE]\<rparr>)
          [str ''repo'', str ''packages'', str ''app''] [])) = 3
   \<and> fst (findLockfile quiet_env [str ''repo'', str ''packages'', str ''app''] []) = Inl NoLockfileFound"
proof -
  let ?e = "quiet_env\<lparr>access := \<lambda>h p. p = [str ''repo'', LOCKFILE]\<rparr>"
  have a: "\<forall>h p. access ?e h p = (p = [str ''repo'', LOCKFILE])" by simp
  note t = findLockfile_nearest_ancestor[OF a, of "[str ''repo'', str ''packages'', str ''app'']" "[]"]
  have run: "findLockfile ?e [str ''repo'', str ''packages'', str ''app''] []
      = (Inr [str ''repo'', LOCKFILE],
         [EvAccess [str ''repo'', str ''packages'', str ''app'', LOCKFILE] False,
          EvAccess [str ''repo'', str ''packages'', LOCKFILE] False,
          EvAccess [str ''repo'', LOCKFILE] True])"
    by code_simp
  have nf: "fst (findLockfile quiet_env [str ''repo'', str ''packages'', str ''app''] []) = Inl NoLockfileFound"
    by code_simp
  show ?thesis using t run nf by simp
qed

end
